theory Spec2Isabelle
  imports Main
begin

section \<open>Text\<close>

text \<open>
  A Python \<open>str\<close> is a sequence of Unicode code points, and \<open>len\<close>, slicing and the
  regular expressions of the program count code points. A string is therefore a list of
  code points, each a natural number; \<open>ascii\<close> writes a literal made of ASCII characters.
\<close>

type_synonym str = "nat list"

definition ascii :: "string \<Rightarrow> str" where
  "ascii s = map of_char s"

text \<open>\<open>s.startswith(p)\<close> and \<open>p in s\<close>.\<close>

definition startswith :: "str \<Rightarrow> str \<Rightarrow> bool" where
  "startswith s p = (take (length p) s = p)"

fun str_in :: "str \<Rightarrow> str \<Rightarrow> bool" where
  "str_in p [] = (p = [])"
| "str_in p (c # cs) = (startswith (c # cs) p \<or> str_in p cs)"

text \<open>
  The program calls into the Python runtime for things whose tables are not part of the
  repository. They are parameters of the model:
  \<^item> \<open>isspace\<close>: the white space of \<open>str.strip()\<close> and of \<open>\s\<close> in a pattern (the same
    test in CPython);
  \<^item> \<open>lower\<close>: \<open>str.lower()\<close>;
  \<^item> \<open>max_str_digits\<close>: the interpreter's limit on the number of digits that \<open>int\<close>
    converts (\<open>sys.get_int_max_str_digits()\<close>: 4300 by default from CPython 3.11 on);
    \<open>None\<close> when there is no limit (an earlier interpreter, or the limit switched off);
  \<^item> \<open>charref_sub\<close>: the text that \<open>html.unescape\<close> returns for a string that contains an
    ampersand, when it returns (the substitution of character references, which needs the
    table of named entities);
  \<^item> \<open>ieq\<close>: whether a cased letter of a pattern compiled with \<open>re.IGNORECASE\<close> matches a
    character of the text.
\<close>

record runtime =
  isspace :: "nat \<Rightarrow> bool"
  lower :: "str \<Rightarrow> str"
  max_str_digits :: "nat option"
  charref_sub :: "str \<Rightarrow> str"
  ieq :: "nat \<Rightarrow> nat \<Rightarrow> bool"

text \<open>\<open>s.strip()\<close>: leading and trailing white space removed.\<close>

definition strip :: "runtime \<Rightarrow> str \<Rightarrow> str" where
  "strip rt s = rev (dropWhile (isspace rt) (rev (dropWhile (isspace rt) s)))"

text \<open>
  An exception is a value: a function that may raise returns \<open>Inl\<close> of the exception or
  \<open>Inr\<close> of its result. The failures of the network request and of the XML parser are
  inputs of the model (see \<open>response\<close> below); of the other calls the program makes on
  a text, \<open>html.unescape\<close> is the one that can raise, with a \<open>ValueError\<close>.

  \<open>html.unescape\<close> (module \<open>html\<close> of CPython) returns its argument when it holds no
  ampersand. Otherwise it replaces every match of
  \<^verbatim>\<open>&(#[0-9]+;?|#[xX][0-9a-fA-F]+;?|[^\t\n\f <&#;]{1,32};?)\<close>, and the replacement of a
  decimal reference calls \<open>int\<close> on its digits, which raises \<open>ValueError\<close> when there are
  more of them than the limit. No match holds an ampersand after its first character, so
  every \<open>&#\<close> that a digit follows starts a decimal reference, whose digits are the
  longest run of digits after it. (A hexadecimal reference is converted in base 16, to
  which the limit does not apply, and a number that is no code point is replaced without
  a call that can raise.) 38 is the ampersand and 35 the hash sign.
\<close>

datatype error = ValueError

definition is_digit :: "nat \<Rightarrow> bool" where
  "is_digit c = (48 \<le> c \<and> c \<le> 57)"

fun long_charref :: "nat \<Rightarrow> str \<Rightarrow> bool" where
  "long_charref n [] = False"
| "long_charref n (c # cs) =
    ((c = 38 \<and> (case cs of
                   [] \<Rightarrow> False
                 | d # ds \<Rightarrow> d = 35 \<and> n < length (takeWhile is_digit ds)))
     \<or> long_charref n cs)"

definition charref_raises :: "runtime \<Rightarrow> str \<Rightarrow> bool" where
  "charref_raises rt s =
    (case max_str_digits rt of None \<Rightarrow> False | Some n \<Rightarrow> long_charref n s)"

definition unescape :: "runtime \<Rightarrow> str \<Rightarrow> error + str" where
  "unescape rt s =
    (if 38 \<notin> set s then Inr s
     else if charref_raises rt s then Inl ValueError
     else Inr (charref_sub rt s))"

subsection \<open>The runtime on ASCII text\<close>

text \<open>
  For evaluation at concrete inputs: the white space table of CPython, \<open>str.lower\<close> and
  the letter comparison as they are on ASCII code points, and the default limit of 4300
  digits. \<open>charref_sub\<close> is the identity here; it is only reached on a text with an
  ampersand on which \<open>html.unescape\<close> returns, and no result stated below depends on
  it.
\<close>

definition py_isspace :: "nat \<Rightarrow> bool" where
  "py_isspace c = (c \<in> set [9, 10, 11, 12, 13, 28, 29, 30, 31, 32, 133, 160, 5760,
     8192, 8193, 8194, 8195, 8196, 8197, 8198, 8199, 8200, 8201, 8202,
     8232, 8233, 8239, 8287, 12288])"

definition ascii_lower :: "nat \<Rightarrow> nat" where
  "ascii_lower c = (if 65 \<le> c \<and> c \<le> 90 then c + 32 else c)"

definition ascii_runtime :: runtime where
  "ascii_runtime = \<lparr> isspace = py_isspace, lower = map ascii_lower,
     max_str_digits = Some 4300, charref_sub = (\<lambda>s. s),
     ieq = (\<lambda>p c. ascii_lower c = ascii_lower p) \<rparr>"

section \<open>Regular expressions\<close>

text \<open>
  The patterns of the program are sequences of single-character tests, each with a
  repetition count, of alternatives of literal words and of the end anchor; capture groups
  enclose whole items. The matcher is the backtracking matcher of Python's \<open>re\<close> on such
  patterns: every repetition is greedy, and gives characters back one at a time, the latest
  repetition first, until the rest of the pattern matches.
\<close>

datatype cls =
    Lit nat             \<comment> \<open>this character\<close>
  | ILit nat            \<comment> \<open>this cased letter, under \<open>re.IGNORECASE\<close>\<close>
  | Space               \<comment> \<open>\<open>\s\<close>\<close>
  | Dot                 \<comment> \<open>\<open>.\<close>: any character but a newline\<close>
  | AnyOf "nat list"    \<comment> \<open>\<open>[...]\<close>\<close>
  | NotOf "nat list"    \<comment> \<open>\<open>[^...]\<close>\<close>

fun cls_ok :: "runtime \<Rightarrow> cls \<Rightarrow> nat \<Rightarrow> bool" where
  "cls_ok rt (Lit p) c = (c = p)"
| "cls_ok rt (ILit p) c = ieq rt p c"
| "cls_ok rt Space c = isspace rt c"
| "cls_ok rt Dot c = (c \<noteq> 10)"
| "cls_ok rt (AnyOf ps) c = (c \<in> set ps)"
| "cls_ok rt (NotOf ps) c = (c \<notin> set ps)"

datatype rx =
    Rep nat "nat option" cls   \<comment> \<open>at least so many, at most so many (if given), greedy\<close>
  | Alts "cls list list"       \<comment> \<open>\<open>(?:w1|w2|...)\<close>, tried in this order\<close>
  | Eos                        \<comment> \<open>\<open>$\<close>: at the end, or before a newline that ends the text\<close>

abbreviation One :: "cls \<Rightarrow> rx" where "One c \<equiv> Rep 1 (Some 1) c"
abbreviation Opt :: "cls \<Rightarrow> rx" where "Opt c \<equiv> Rep 0 (Some 1) c"
abbreviation Star :: "cls \<Rightarrow> rx" where "Star c \<equiv> Rep 0 None c"
abbreviation Plus :: "cls \<Rightarrow> rx" where "Plus c \<equiv> Rep 1 None c"

text \<open>
  A match of an item list is the list of the texts its items consumed, in order. \<open>rep\<close>
  is one repetition followed by the rest of the pattern \<open>k\<close>: it takes the longest run
  first and falls back to shorter ones.
\<close>

fun rep :: "runtime \<Rightarrow> cls \<Rightarrow> (str \<Rightarrow> str list option) \<Rightarrow> nat \<Rightarrow> nat option \<Rightarrow> str
    \<Rightarrow> str list option" where
  "rep rt c k lo hi [] = (if lo = 0 then map_option (Cons []) (k []) else None)"
| "rep rt c k lo hi (x # xs) =
    (if cls_ok rt c x \<and> hi \<noteq> Some 0 then
       (case rep rt c k (lo - 1) (map_option (\<lambda>h. h - 1) hi) xs of
          Some (seg # segs) \<Rightarrow> Some ((x # seg) # segs)
        | _ \<Rightarrow> if lo = 0 then map_option (Cons []) (k (x # xs)) else None)
     else if lo = 0 then map_option (Cons []) (k (x # xs)) else None)"

fun prefix_ok :: "runtime \<Rightarrow> cls list \<Rightarrow> str \<Rightarrow> bool" where
  "prefix_ok rt [] s = True"
| "prefix_ok rt (c # cs) [] = False"
| "prefix_ok rt (c # cs) (x # xs) = (cls_ok rt c x \<and> prefix_ok rt cs xs)"

primrec first_alt :: "runtime \<Rightarrow> (str \<Rightarrow> str list option) \<Rightarrow> str \<Rightarrow> cls list list
    \<Rightarrow> str list option" where
  "first_alt rt k s [] = None"
| "first_alt rt k s (a # as) =
    (if prefix_ok rt a s then
       (case k (drop (length a) s) of
          Some segs \<Rightarrow> Some (take (length a) s # segs)
        | None \<Rightarrow> first_alt rt k s as)
     else first_alt rt k s as)"

primrec rx_match :: "runtime \<Rightarrow> rx list \<Rightarrow> str \<Rightarrow> str list option" where
  "rx_match rt [] s = Some []"
| "rx_match rt (r # rs) s =
    (case r of
       Rep lo hi c \<Rightarrow> rep rt c (rx_match rt rs) lo hi s
     | Alts as \<Rightarrow> first_alt rt (rx_match rt rs) s as
     | Eos \<Rightarrow> (if s = [] \<or> s = [10] then map_option (Cons []) (rx_match rt rs s) else None))"

text \<open>
  \<open>finditer\<close>: the matches from left to right, none overlapping. The counter is the
  number of characters still inside the previous match. \<open>re_sub\<close> is
  \<open>re.sub(pattern, '', s)\<close>: every match is removed. (After a match of no character
  both move on by one character; no pattern of this program matches the empty text.)
\<close>

fun finditer :: "runtime \<Rightarrow> rx list \<Rightarrow> nat \<Rightarrow> str \<Rightarrow> str list list" where
  "finditer rt p k [] =
     (if k = 0 then (case rx_match rt p [] of Some segs \<Rightarrow> [segs] | None \<Rightarrow> []) else [])"
| "finditer rt p (Suc k) (c # cs) = finditer rt p k cs"
| "finditer rt p 0 (c # cs) =
     (case rx_match rt p (c # cs) of
        None \<Rightarrow> finditer rt p 0 cs
      | Some segs \<Rightarrow> segs # finditer rt p (length (concat segs) - 1) cs)"

fun re_sub :: "runtime \<Rightarrow> rx list \<Rightarrow> nat \<Rightarrow> str \<Rightarrow> str" where
  "re_sub rt p k [] = []"
| "re_sub rt p (Suc k) (c # cs) = re_sub rt p k cs"
| "re_sub rt p 0 (c # cs) =
     (case rx_match rt p (c # cs) of
        None \<Rightarrow> c # re_sub rt p 0 cs
      | Some segs \<Rightarrow>
          if concat segs = [] then c # re_sub rt p 0 cs
          else re_sub rt p (length (concat segs) - 1) cs)"

text \<open>
  A pattern with groups is written as a list of parts, each a list of items; a group is a
  part. \<open>cut\<close> gives the text each part matched.
\<close>

fun cut :: "rx list list \<Rightarrow> str list \<Rightarrow> str list" where
  "cut [] segs = []"
| "cut (part # parts) segs =
     concat (take (length part) segs) # cut parts (drop (length part) segs)"

text \<open>
  The literal text of a pattern compiled with \<open>re.IGNORECASE\<close>: a letter matches in
  either case, any other character matches itself.
\<close>

definition icls :: "string \<Rightarrow> cls list" where
  "icls s = map (\<lambda>ch. let c = of_char ch in
       if (65 \<le> c \<and> c \<le> 90) \<or> (97 \<le> c \<and> c \<le> 122) then ILit c else Lit c) s"

definition icase :: "string \<Rightarrow> rx list" where
  "icase s = map One (icls s)"

text \<open>
  What the text consumed by one item of a pattern looks like: used to state what a match
  guarantees.
\<close>

fun seg_ok :: "runtime \<Rightarrow> rx \<Rightarrow> str \<Rightarrow> bool" where
  "seg_ok rt (Rep lo hi c) seg =
     (lo \<le> length seg \<and> (case hi of None \<Rightarrow> True | Some h \<Rightarrow> length seg \<le> h)
      \<and> list_all (cls_ok rt c) seg)"
| "seg_ok rt (Alts as) seg = list_ex (\<lambda>a. list_all2 (cls_ok rt) a seg) as"
| "seg_ok rt Eos seg = (seg = [])"

section \<open>Text normalizer\<close>

text \<open>
  \<open>clean_title\<close> (lines 354 to 385). The two patterns are
  \<^verbatim>\<open>\s*\|\s*[^|]*\s*-\s*[^-]*$\<close> and \<^verbatim>\<open>\s*-\s*[^-]*$\<close>
  (124 is the bar, 45 the dash). \<open>None\<close> is Python's \<open>None\<close>. The function has no
  handler: when \<open>unescape\<close> raises at line 368, the exception leaves \<open>clean_title\<close>.
\<close>

definition title_patterns :: "rx list list" where
  "title_patterns =
    [ [Star Space, One (Lit 124), Star Space, Star (NotOf [124]), Star Space, One (Lit 45),
       Star Space, Star (NotOf [45]), Eos],
      [Star Space, One (Lit 45), Star Space, Star (NotOf [45]), Eos] ]"

definition clean_title :: "runtime \<Rightarrow> str option \<Rightarrow> error + str option" where
  "clean_title rt title =
    (case title of
       None \<Rightarrow> Inr None
     | Some t \<Rightarrow>
         if t = [] then Inr (Some t)
         else (case unescape rt t of
                 Inl e \<Rightarrow> Inl e
               | Inr u \<Rightarrow>
                   Inr (Some (strip rt (foldl (\<lambda>t pattern. re_sub rt pattern 0 t)
                                          (strip rt u) title_patterns)))))"

section \<open>Exclusion filters\<close>

text \<open>
  \<open>should_exclude_text\<close> (lines 387 to 425). The argument may be \<open>None\<close>, which
  \<open>not text\<close> treats as the empty string. The phrases that are not ASCII are written as
  their code points.
\<close>

definition exclude_patterns :: "str list" where
  "exclude_patterns =
    [ [24456, 25265, 27465, 65292, 24744, 20351, 29992, 30340, 28687, 35261, 22120,
       29256, 26412, 36942, 20302],
      [24314, 35696, 25913, 29992],
      ascii ''Yahoo Chrome, Firefox, Microsoft Edge'',
      ascii ''Google Chrome, Firefox, Microsoft Edge'',
      [20197, 29554, 24471, 26368, 20339, 28687, 35261, 32147, 39511],
      ascii ''Manage history'',
      ascii ''{notificationCenterNavMsg}'',
      [28687, 35261, 22120, 29256, 26412, 36942, 20302],
      [26368, 20339, 28687, 35261, 32147, 39511],
      ascii ''browser version'',
      ascii ''Internet Explorer'' ]"

definition should_exclude_text :: "runtime \<Rightarrow> str option \<Rightarrow> bool" where
  "should_exclude_text rt text_arg =
    (case text_arg of
       None \<Rightarrow> True
     | Some t \<Rightarrow>
         if t = [] then True
         else if list_ex (\<lambda>pattern. str_in (lower rt pattern) (lower rt t)) exclude_patterns
           then True
         else if length (strip rt t) < 5 then True
         else False)"

text \<open>\<open>should_exclude_url\<close> (lines 427 to 458).\<close>

definition exclude_url_patterns :: "str list" where
  "exclude_url_patterns =
    [ ascii ''javascript:'',
      ascii ''mailto:'',
      ascii ''#'',
      ascii ''microsoft.com/zh-tw/download/internet-explorer'',
      ascii ''download/internet-explorer'' ]"

definition should_exclude_url :: "runtime \<Rightarrow> str \<Rightarrow> bool" where
  "should_exclude_url rt url =
    (if url = [] then True
     else if list_ex (\<lambda>pattern. str_in pattern (lower rt url)) exclude_url_patterns
       then True
     else if \<not> (startswith url (ascii ''http://'') \<or> startswith url (ascii ''https://''))
       then True
     else False)"

section \<open>Tiered markup extractor\<close>

record news_item =
  n_text :: str
  n_url :: str
  n_h5_url :: str
  n_appIconUrl :: str
  n_sourceUniqueId :: str
  n_package :: str

definition MAX_NEWS_ITEMS :: nat where
  "MAX_NEWS_ITEMS = 15"

definition YAHOO_NEWS_URL :: str where
  "YAHOO_NEWS_URL = ascii ''https://tw.news.yahoo.com/''"

definition yahoo_item :: "str \<Rightarrow> str \<Rightarrow> news_item" where
  "yahoo_item title url =
    \<lparr> n_text = title, n_url = url, n_h5_url = url, n_appIconUrl = [],
      n_sourceUniqueId = ascii ''content_yahoo'', n_package = [] \<rparr>"

text \<open>
  The three patterns of \<open>parse_yahoo_html\<close> (lines 241, 275 and 308), all compiled with
  \<open>re.IGNORECASE\<close>. 34 and 39 are the two quotes, 60 and 62 the angle brackets, and 92
  the backslash: in the first pattern \<^verbatim>\<open>\\.?\<close> is a backslash followed by an
  optional character.

  \<^verbatim>\<open><a\s+[^>]*href=["\'](\\.?/articles[^"\']*)["\'][^>]*>([^<]*)</a>\<close>
\<close>

definition pattern1 :: "rx list list" where
  "pattern1 =
    [ icase ''<a'' @ [Plus Space, Star (NotOf [62])] @ icase ''href='' @ [One (AnyOf [34, 39])],
      [One (Lit 92), Opt Dot] @ icase ''/articles'' @ [Star (NotOf [34, 39])],
      [One (AnyOf [34, 39]), Star (NotOf [62]), One (Lit 62)],
      [Star (NotOf [60])],
      icase ''</a>'' ]"

text \<open>
  \<^verbatim>\<open><a\s+[^>]*class=["\']([^"\']*(?:gPFEn|IFHyqb|IBr9hb)[^"\']*)["\'][^>]*href=["\']([^"\']*)["\'][^>]*>([^<]*)</a>\<close>
\<close>

definition pattern2 :: "rx list list" where
  "pattern2 =
    [ icase ''<a'' @ [Plus Space, Star (NotOf [62])] @ icase ''class='' @ [One (AnyOf [34, 39])],
      [Star (NotOf [34, 39]), Alts [icls ''gPFEn'', icls ''IFHyqb'', icls ''IBr9hb''],
       Star (NotOf [34, 39])],
      [One (AnyOf [34, 39]), Star (NotOf [62])] @ icase ''href='' @ [One (AnyOf [34, 39])],
      [Star (NotOf [34, 39])],
      [One (AnyOf [34, 39]), Star (NotOf [62]), One (Lit 62)],
      [Star (NotOf [60])],
      icase ''</a>'' ]"

text \<open>
  \<^verbatim>\<open><a\s+[^>]*href=["\']([^"\']+)["\'][^>]*>([^<]{10,})</a>\<close>
\<close>

definition pattern3 :: "rx list list" where
  "pattern3 =
    [ icase ''<a'' @ [Plus Space, Star (NotOf [62])] @ icase ''href='' @ [One (AnyOf [34, 39])],
      [Plus (NotOf [34, 39])],
      [One (AnyOf [34, 39]), Star (NotOf [62]), One (Lit 62)],
      [Rep 10 None (NotOf [60])],
      icase ''</a>'' ]"

text \<open>The matches of each pattern, as the groups the loops read.\<close>

definition pattern1_matches :: "runtime \<Rightarrow> str \<Rightarrow> (str \<times> str) list" where
  "pattern1_matches rt html_content =
    map (\<lambda>segs. case cut pattern1 segs of
                   [_, g1, _, g2, _] \<Rightarrow> (g1, g2)
                 | _ \<Rightarrow> ([], []))
        (finditer rt (concat pattern1) 0 html_content)"

definition pattern2_matches :: "runtime \<Rightarrow> str \<Rightarrow> (str \<times> str \<times> str) list" where
  "pattern2_matches rt html_content =
    map (\<lambda>segs. case cut pattern2 segs of
                   [_, g1, _, g2, _, g3, _] \<Rightarrow> (g1, g2, g3)
                 | _ \<Rightarrow> ([], [], []))
        (finditer rt (concat pattern2) 0 html_content)"

definition pattern3_matches :: "runtime \<Rightarrow> str \<Rightarrow> (str \<times> str) list" where
  "pattern3_matches rt html_content =
    map (\<lambda>segs. case cut pattern3 segs of
                   [_, g1, _, g2, _] \<Rightarrow> (g1, g2)
                 | _ \<Rightarrow> ([], []))
        (finditer rt (concat pattern3) 0 html_content)"

text \<open>
  The three loops (lines 244 to 270, 278 to 303 and 311 to 347). Each runs over the
  matches of its pattern and appends to \<open>news_array\<close>; \<open>break\<close> ends the loop,
  \<open>continue\<close> goes on with the remaining matches. A loop gives the array as it is when
  the loop is left, and the exception that left it, if any: \<open>clean_title\<close> may raise,
  and the array keeps what was appended before.
\<close>

fun strategy_a :: "runtime \<Rightarrow> (str \<times> str) list \<Rightarrow> news_item list
    \<Rightarrow> news_item list \<times> error option" where
  "strategy_a rt [] news_array = (news_array, None)"
| "strategy_a rt ((url, raw) # matches) news_array =
    (if length news_array \<ge> MAX_NEWS_ITEMS then (news_array, None)
     else (case clean_title rt (Some raw) of
             Inl e \<Rightarrow> (news_array, Some e)
           | Inr title \<Rightarrow>
               if should_exclude_text rt title then strategy_a rt matches news_array
               else if should_exclude_url rt url then strategy_a rt matches news_array
               else (case title of
                       Some t \<Rightarrow>
                         if t \<noteq> [] \<and> url \<noteq> []
                         then strategy_a rt matches (news_array @ [yahoo_item t url])
                         else strategy_a rt matches news_array
                     | None \<Rightarrow> strategy_a rt matches news_array)))"

fun strategy_b :: "runtime \<Rightarrow> (str \<times> str \<times> str) list \<Rightarrow> news_item list
    \<Rightarrow> news_item list \<times> error option" where
  "strategy_b rt [] news_array = (news_array, None)"
| "strategy_b rt ((cls, url, raw) # matches) news_array =
    (if length news_array \<ge> MAX_NEWS_ITEMS then (news_array, None)
     else (case clean_title rt (Some raw) of
             Inl e \<Rightarrow> (news_array, Some e)
           | Inr title \<Rightarrow>
               if should_exclude_text rt title then strategy_b rt matches news_array
               else if should_exclude_url rt url then strategy_b rt matches news_array
               else (case title of
                       Some t \<Rightarrow>
                         if t \<noteq> [] \<and> url \<noteq> []
                         then strategy_b rt matches (news_array @ [yahoo_item t url])
                         else strategy_b rt matches news_array
                     | None \<Rightarrow> strategy_b rt matches news_array)))"

text \<open>Lines 319, 320 and 328 to 332 of the third loop.\<close>

definition truncate_title :: "str \<Rightarrow> str" where
  "truncate_title title = (if length title > 255 then take 255 title else title)"

definition rebase_link :: "str \<Rightarrow> str" where
  "rebase_link url =
    (if \<not> startswith url (ascii ''http'') then
       (if startswith url (ascii ''./'') then YAHOO_NEWS_URL @ drop 2 url
        else if startswith url (ascii ''/'') then YAHOO_NEWS_URL @ url
        else url)
     else url)"

fun strategy_c :: "runtime \<Rightarrow> (str \<times> str) list \<Rightarrow> news_item list
    \<Rightarrow> news_item list \<times> error option" where
  "strategy_c rt [] news_array = (news_array, None)"
| "strategy_c rt ((url, raw) # matches) news_array =
    (if length news_array \<ge> MAX_NEWS_ITEMS then (news_array, None)
     else (case clean_title rt (Some (truncate_title raw)) of
             Inl e \<Rightarrow> (news_array, Some e)
           | Inr title \<Rightarrow>
               if should_exclude_text rt title then strategy_c rt matches news_array
               else if should_exclude_url rt (rebase_link url)
                 then strategy_c rt matches news_array
               else (case title of
                       Some t \<Rightarrow>
                         if t \<noteq> [] \<and> rebase_link url \<noteq> []
                         then strategy_c rt matches
                                (news_array @ [yahoo_item t (rebase_link url)])
                         else strategy_c rt matches news_array
                     | None \<Rightarrow> strategy_c rt matches news_array)))"

text \<open>
  The cascade of \<open>parse_yahoo_html\<close> (lines 229 to 352). The source mutates
  \<open>news_array\<close> and writes one log line when it enters the second block and one when it
  enters the third; the model returns the array together with the strategies it attempted,
  in order. \<open>run_strategies\<close> is the cascade on the matches of the three patterns. The
  whole body is in one \<open>try\<close>: an exception raised in a loop goes to the handler of line
  351, which logs it, so that the function returns with the array as the loop left it and
  attempts no later strategy.
\<close>

datatype strategy = Strategy_A | Strategy_B | Strategy_C

definition run_strategies :: "runtime \<Rightarrow> (str \<times> str) list \<Rightarrow> (str \<times> str \<times> str) list
    \<Rightarrow> (str \<times> str) list \<Rightarrow> news_item list \<Rightarrow> news_item list \<times> strategy list" where
  "run_strategies rt m1 m2 m3 news_array =
    (case strategy_a rt m1 news_array of
       (a1, Some e) \<Rightarrow> (a1, [Strategy_A])
     | (a1, None) \<Rightarrow>
         (case (if length a1 = 0 then (strategy_b rt m2 a1, [Strategy_B])
                else ((a1, None), [])) of
            ((a2, Some e), t2) \<Rightarrow> (a2, Strategy_A # t2)
          | ((a2, None), t2) \<Rightarrow>
              (case (if length a2 = 0 then (strategy_c rt m3 a2, [Strategy_C])
                     else ((a2, None), [])) of
                 ((a3, e3), t3) \<Rightarrow> (a3, Strategy_A # t2 @ t3))))"

definition parse_yahoo_html :: "runtime \<Rightarrow> str \<Rightarrow> news_item list
    \<Rightarrow> news_item list \<times> strategy list" where
  "parse_yahoo_html rt html_content news_array =
    run_strategies rt (pattern1_matches rt html_content) (pattern2_matches rt html_content)
      (pattern3_matches rt html_content) news_array"

text \<open>
  \<open>fetch_yahoo_news_trending\<close> (lines 189 to 227). What the network gave is an input of
  the model: the request failed (any exception, which the function catches), or it returned
  a status and a decoded body.
\<close>

datatype 'a response = Fetch_failed | Response nat 'a

definition fetch_yahoo_news_trending :: "runtime \<Rightarrow> str response \<Rightarrow> news_item list" where
  "fetch_yahoo_news_trending rt resp =
    (case resp of
       Fetch_failed \<Rightarrow> []
     | Response status html_content \<Rightarrow>
         if status \<noteq> 200 then [] else fst (parse_yahoo_html rt html_content []))"

section \<open>Structured feed extractor\<close>

text \<open>
  The tree that \<open>ET.fromstring\<close> returns: a tag, the text before the first child
  (\<open>None\<close> when there is none) and the children. \<open>findall_items\<close> is
  \<open>root.findall('.//item')\<close>: every descendant of the root with tag \<open>item\<close>, in document
  order. \<open>find_child\<close> is \<open>item.find(name)\<close>: the first child with that tag.
\<close>

datatype element = Element (tag: str) (el_text: "str option") (children: "element list")

fun iter :: "element \<Rightarrow> element list" where
  "iter (Element t x cs) = Element t x cs # concat (map iter cs)"

definition findall_items :: "element \<Rightarrow> element list" where
  "findall_items root =
    filter (\<lambda>e. tag e = ascii ''item'') (concat (map iter (children root)))"

definition find_child :: "str \<Rightarrow> element \<Rightarrow> element option" where
  "find_child name item = List.find (\<lambda>e. tag e = name) (children item)"

definition google_item :: "str \<Rightarrow> str \<Rightarrow> news_item" where
  "google_item title link =
    \<lparr> n_text = title, n_url = link, n_h5_url = link, n_appIconUrl = [],
      n_sourceUniqueId = ascii ''content_google'', n_package = [] \<rparr>"

text \<open>
  The loop of lines 155 to 176, over the items it is given: the array at the end of the
  loop, or the exception that \<open>clean_title\<close> raised.
\<close>

fun rss_loop :: "runtime \<Rightarrow> element list \<Rightarrow> news_item list \<Rightarrow> error + news_item list" where
  "rss_loop rt [] news_array = Inr news_array"
| "rss_loop rt (item # items) news_array =
    (case (find_child (ascii ''title'') item, find_child (ascii ''link'') item) of
       (Some title_elem, Some link_elem) \<Rightarrow>
         (case (el_text title_elem, el_text link_elem) of
            (Some raw, Some link) \<Rightarrow>
              if raw \<noteq> [] \<and> link \<noteq> [] then
                (case clean_title rt (Some raw) of
                   Inl e \<Rightarrow> Inl e
                 | Inr title \<Rightarrow>
                     if \<not> should_exclude_text rt title then
                       (case title of
                          Some t \<Rightarrow> rss_loop rt items (news_array @ [google_item t link])
                        | None \<Rightarrow> rss_loop rt items news_array)
                     else rss_loop rt items news_array)
              else rss_loop rt items news_array
          | _ \<Rightarrow> rss_loop rt items news_array)
     | _ \<Rightarrow> rss_loop rt items news_array)"

text \<open>
  \<open>fetch_google_news_rss\<close> (lines 120 to 187). The body of the response is given as the
  result of parsing it: \<open>None\<close> when \<open>ET.fromstring\<close> raises \<open>ParseError\<close>. An exception
  raised in the loop is no \<open>ParseError\<close>: it goes to the handler of lines 185 to 187,
  which returns the empty list, and the records appended before are lost.
\<close>

definition fetch_google_news_rss :: "runtime \<Rightarrow> element option response \<Rightarrow> news_item list"
  where
  "fetch_google_news_rss rt resp =
    (case resp of
       Fetch_failed \<Rightarrow> []
     | Response status parsed \<Rightarrow>
         if status \<noteq> 200 then []
         else (case parsed of
                 None \<Rightarrow> []
               | Some root \<Rightarrow>
                   (case rss_loop rt (take MAX_NEWS_ITEMS (findall_items root)) [] of
                      Inl e \<Rightarrow> []
                    | Inr news_array \<Rightarrow> news_array)))"

section \<open>Aggregator and fallback generator\<close>

text \<open>
  The dictionaries of the output have fixed keys; they are records here, and \<open>json\<close> is
  the value handed to \<open>json.dumps\<close>, with the keys in the order the source writes them.
\<close>

record source_section =
  s_track_id :: str
  s_title :: str
  s_title_icon_url :: str
  s_headImageUrl :: str
  s_link_type :: str
  s_data :: "news_item list"
  s_selectedStatus :: bool
  s_rank_type :: str

record document =
  d_config_id :: str
  d_updateIntervalMinutes :: "(str \<times> int) list"
  d_result :: "source_section list"
  d_hash :: str
  d_qt :: str
  d_message :: str
  d_cost :: int
  d_status :: int

datatype json = JStr str | JInt int | JBool bool | JList "json list" | JDict "(str \<times> json) list"

text \<open>
  \<open>json.dumps(value, ensure_ascii=False, indent=2)\<close> on such values: strings keep every
  character but the quote, the backslash and the control characters below 32.
\<close>

definition hex_digit :: "nat \<Rightarrow> nat" where
  "hex_digit d = (if d < 10 then 48 + d else 87 + d)"

definition escape_char :: "nat \<Rightarrow> str" where
  "escape_char c =
    (if c = 34 then [92, 34]
     else if c = 92 then [92, 92]
     else if c = 8 then [92, 98]
     else if c = 12 then [92, 102]
     else if c = 10 then [92, 110]
     else if c = 13 then [92, 114]
     else if c = 9 then [92, 116]
     else if c < 32 then [92, 117, 48, 48, hex_digit (c div 16), hex_digit (c mod 16)]
     else [c])"

definition quoted :: "str \<Rightarrow> str" where
  "quoted s = [34] @ concat (map escape_char s) @ [34]"

function digits :: "nat \<Rightarrow> str" where
  "digits n = (if n < 10 then [48 + n] else digits (n div 10) @ [48 + n mod 10])"
  by pat_completeness auto
termination
  by (relation "measure (\<lambda>n. n)") auto

declare digits.simps [simp del]

definition newline_indent :: "nat \<Rightarrow> str" where
  "newline_indent level = 10 # replicate (2 * level) 32"

fun join :: "str \<Rightarrow> str list \<Rightarrow> str" where
  "join sep [] = []"
| "join sep [x] = x"
| "join sep (x # y # ys) = x @ sep @ join sep (y # ys)"

fun dumps :: "nat \<Rightarrow> json \<Rightarrow> str" where
  "dumps level (JStr s) = quoted s"
| "dumps level (JInt i) = (if i < 0 then 45 # digits (nat (- i)) else digits (nat i))"
| "dumps level (JBool b) = (if b then ascii ''true'' else ascii ''false'')"
| "dumps level (JList xs) =
    (if xs = [] then ascii ''[]''
     else [91] @ newline_indent (level + 1)
          @ join (44 # newline_indent (level + 1)) (map (dumps (level + 1)) xs)
          @ newline_indent level @ [93])"
| "dumps level (JDict kvs) =
    (if kvs = [] then ascii ''{}''
     else [123] @ newline_indent (level + 1)
          @ join (44 # newline_indent (level + 1))
              (map (\<lambda>(k, v). quoted k @ ascii '': '' @ dumps (level + 1) v) kvs)
          @ newline_indent level @ [125])"

definition json_dumps :: "json \<Rightarrow> str" where
  "json_dumps v = dumps 0 v"

definition item_json :: "news_item \<Rightarrow> json" where
  "item_json r = JDict
    [ (ascii ''text'', JStr (n_text r)),
      (ascii ''url'', JStr (n_url r)),
      (ascii ''h5_url'', JStr (n_h5_url r)),
      (ascii ''appIconUrl'', JStr (n_appIconUrl r)),
      (ascii ''sourceUniqueId'', JStr (n_sourceUniqueId r)),
      (ascii ''package'', JStr (n_package r)) ]"

definition section_json :: "source_section \<Rightarrow> json" where
  "section_json sec = JDict
    [ (ascii ''track_id'', JStr (s_track_id sec)),
      (ascii ''title'', JStr (s_title sec)),
      (ascii ''title_icon_url'', JStr (s_title_icon_url sec)),
      (ascii ''headImageUrl'', JStr (s_headImageUrl sec)),
      (ascii ''link_type'', JStr (s_link_type sec)),
      (ascii ''data'', JList (map item_json (s_data sec))),
      (ascii ''selectedStatus'', JBool (s_selectedStatus sec)),
      (ascii ''rank_type'', JStr (s_rank_type sec)) ]"

definition document_json :: "document \<Rightarrow> json" where
  "document_json doc = JDict
    [ (ascii ''config_id'', JStr (d_config_id doc)),
      (ascii ''updateIntervalMinutes'',
         JDict (map (\<lambda>(k, v). (k, JInt v)) (d_updateIntervalMinutes doc))),
      (ascii ''result'', JList (map section_json (d_result doc))),
      (ascii ''hash'', JStr (d_hash doc)),
      (ascii ''qt'', JStr (d_qt doc)),
      (ascii ''message'', JStr (d_message doc)),
      (ascii ''cost'', JInt (d_cost doc)),
      (ascii ''status'', JInt (d_status doc)) ]"

definition GOOGLE_NEWS_WEB_URL :: str where
  "GOOGLE_NEWS_WEB_URL = ascii ''https://news.google.com/home?hl=zh-TW&gl=TW&ceid=TW:zh-Hant''"

definition update_intervals :: "(str \<times> int) list" where
  "update_intervals = [(ascii ''2G'', 20), (ascii ''3G'', 20), (ascii ''4G'', 20), (ascii ''WIFI'', 20)]"

text \<open>
  \<open>create_fallback_json\<close> (lines 50 to 118). Building the dictionary and serialising it
  raise nothing, so the handler of line 116 is never entered and has no branch here.
\<close>

definition fallback_data :: document where
  "fallback_data =
    \<lparr> d_config_id = ascii ''R-10'',
      d_updateIntervalMinutes = update_intervals,
      d_result =
        [ \<lparr> s_track_id = ascii ''hq_yahoo'', s_title = ascii ''Yahoo!'',
            s_title_icon_url = [], s_headImageUrl = [], s_link_type = ascii ''app'',
            s_data =
              [ \<lparr> n_text = [28961, 27861, 35370, 21839, 89, 97, 104, 111, 111, 26032, 32862,
                             65292, 35531, 27298, 26597, 32178, 32097, 36899, 25509],
                  n_url = YAHOO_NEWS_URL, n_h5_url = YAHOO_NEWS_URL, n_appIconUrl = [],
                  n_sourceUniqueId = ascii ''content_yahoo'', n_package = [] \<rparr> ],
            s_selectedStatus = False, s_rank_type = ascii ''Yahoo'' \<rparr>,
          \<lparr> s_track_id = ascii ''hq_google'', s_title = ascii ''Google'',
            s_title_icon_url = [], s_headImageUrl = [], s_link_type = ascii ''app'',
            s_data =
              [ \<lparr> n_text = [28961, 27861, 35370, 21839, 71, 111, 111, 103, 108, 101, 26032,
                             32862, 65292, 35531, 27298, 26597, 32178, 32097, 36899, 25509],
                  n_url = GOOGLE_NEWS_WEB_URL, n_h5_url = GOOGLE_NEWS_WEB_URL,
                  n_appIconUrl = [], n_sourceUniqueId = ascii ''content_google'',
                  n_package = [] \<rparr> ],
            s_selectedStatus = False, s_rank_type = ascii ''Google'' \<rparr> ],
      d_hash = ascii ''news_fallback'',
      d_qt = ascii ''composite_ad_news'',
      d_message = ascii ''success'',
      d_cost = 20,
      d_status = 0 \<rparr>"

definition create_fallback_json :: str where
  "create_fallback_json = json_dumps (document_json fallback_data)"

text \<open>
  \<open>get_hot_words_json\<close> (lines 497 to 578), without the file it removes and writes and
  without the log. \<open>build_result\<close> is lines 523 to 551, \<open>response_data\<close> lines 558 to 572;
  \<open>cost\<close> is the number \<open>random.randint(10, 50)\<close> drew.
\<close>

definition build_result :: "news_item list \<Rightarrow> news_item list \<Rightarrow> source_section list" where
  "build_result yahoo_news google_news =
    (if yahoo_news \<noteq> [] then
       [ \<lparr> s_track_id = ascii ''hq_yahoo'', s_title = ascii ''Yahoo!'',
           s_title_icon_url = [], s_headImageUrl = [], s_link_type = ascii ''app'',
           s_data = yahoo_news, s_selectedStatus = False,
           s_rank_type = ascii ''rank_ahoo'' \<rparr> ]
     else [])
    @ (if google_news \<noteq> [] then
       [ \<lparr> s_track_id = ascii ''hq_google'', s_title = ascii ''Google'',
           s_title_icon_url = [], s_headImageUrl = [], s_link_type = ascii ''app'',
           s_data = google_news, s_selectedStatus = False,
           s_rank_type = ascii ''rank_google'' \<rparr> ]
     else [])"

definition response_data :: "source_section list \<Rightarrow> int \<Rightarrow> document" where
  "response_data result cost =
    \<lparr> d_config_id = ascii ''R-10'',
      d_updateIntervalMinutes = update_intervals,
      d_result = result,
      d_hash = ascii ''c2d15b8822404d2ea10f48b759eadba1'',
      d_qt = ascii ''composite_ad_yahoo_google'',
      d_message = ascii ''success'',
      d_cost = cost,
      d_status = 0 \<rparr>"

definition get_hot_words_json :: "runtime \<Rightarrow> str response \<Rightarrow> element option response \<Rightarrow> int
    \<Rightarrow> str" where
  "get_hot_words_json rt yahoo_resp google_resp cost =
    (let yahoo_news = fetch_yahoo_news_trending rt yahoo_resp;
         google_news = fetch_google_news_rss rt google_resp;
         result = build_result yahoo_news google_news
     in if result = [] then create_fallback_json
        else json_dumps (document_json (response_data result cost)))"

text \<open>The document that the returned text serialises.\<close>

definition result_document :: "runtime \<Rightarrow> str response \<Rightarrow> element option response \<Rightarrow> int
    \<Rightarrow> document" where
  "result_document rt yahoo_resp google_resp cost =
    (let result = build_result (fetch_yahoo_news_trending rt yahoo_resp)
                               (fetch_google_news_rss rt google_resp)
     in if result = [] then fallback_data else response_data result cost)"

section \<open>Notions used to state the properties\<close>


definition record_ok :: "runtime \<Rightarrow> news_item \<Rightarrow> bool" where
  "record_ok rt r =
    (5 \<le> length (strip rt (n_text r))
     \<and> (startswith (n_url r) (ascii ''http://'') \<or> startswith (n_url r) (ascii ''https://'')))"

definition feed_record_ok :: "runtime \<Rightarrow> news_item \<Rightarrow> bool" where
  "feed_record_ok rt r = (5 \<le> length (strip rt (n_text r)) \<and> n_url r \<noteq> [])"

text \<open>
  One item node of the feed: its title and link when both are present and not empty,
  whether it is well formed (its title is normalized and the result passes the title
  filter), whether normalizing its title raises, and the record the loop of
  \<open>fetch_google_news_rss\<close> appends for it, if any.
\<close>

definition item_fields :: "element \<Rightarrow> (str \<times> str) option" where
  "item_fields item =
    (case (find_child (ascii ''title'') item, find_child (ascii ''link'') item) of
       (Some title_elem, Some link_elem) \<Rightarrow>
         (case (el_text title_elem, el_text link_elem) of
            (Some raw, Some link) \<Rightarrow> if raw \<noteq> [] \<and> link \<noteq> [] then Some (raw, link) else None
          | _ \<Rightarrow> None)
     | _ \<Rightarrow> None)"

definition well_formed :: "runtime \<Rightarrow> element \<Rightarrow> bool" where
  "well_formed rt item =
    (case item_fields item of
       None \<Rightarrow> False
     | Some (raw, link) \<Rightarrow>
         (case clean_title rt (Some raw) of
            Inl e \<Rightarrow> False
          | Inr title \<Rightarrow> \<not> should_exclude_text rt title))"

definition item_raises :: "runtime \<Rightarrow> element \<Rightarrow> bool" where
  "item_raises rt item =
    (case item_fields item of
       None \<Rightarrow> False
     | Some (raw, link) \<Rightarrow>
         (case clean_title rt (Some raw) of Inl e \<Rightarrow> True | Inr title \<Rightarrow> False))"

definition rss_record :: "runtime \<Rightarrow> element \<Rightarrow> news_item option" where
  "rss_record rt item =
    (case item_fields item of
       None \<Rightarrow> None
     | Some (raw, link) \<Rightarrow>
         (case clean_title rt (Some raw) of
            Inl e \<Rightarrow> None
          | Inr title \<Rightarrow>
              if should_exclude_text rt title then None
              else map_option (\<lambda>t. google_item t link) title))"

text \<open>
  One iteration of a loop of \<open>parse_yahoo_html\<close> on a link and a raw text: the record
  it appends, if any, or the exception it raises. \<open>collect\<close> is the shape the three loops
  share.
\<close>

definition accept :: "runtime \<Rightarrow> str \<Rightarrow> str \<Rightarrow> error + news_item option" where
  "accept rt url raw =
    (case clean_title rt (Some raw) of
       Inl e \<Rightarrow> Inl e
     | Inr title \<Rightarrow>
         Inr (if should_exclude_text rt title then None
              else if should_exclude_url rt url then None
              else (case title of
                      Some t \<Rightarrow> if t \<noteq> [] \<and> url \<noteq> [] then Some (yahoo_item t url) else None
                    | None \<Rightarrow> None)))"

fun collect :: "('m \<Rightarrow> error + news_item option) \<Rightarrow> 'm list \<Rightarrow> news_item list
    \<Rightarrow> news_item list \<times> error option" where
  "collect f [] news_array = (news_array, None)"
| "collect f (m # ms) news_array =
    (if length news_array \<ge> MAX_NEWS_ITEMS then (news_array, None)
     else (case f m of
             Inl e \<Rightarrow> (news_array, Some e)
           | Inr None \<Rightarrow> collect f ms news_array
           | Inr (Some r) \<Rightarrow> collect f ms (news_array @ [r])))"

text \<open>
  Sample inputs: a feed whose item nodes are \<open>feed_entry\<close>s in one channel, the entries
  \<open>Headline A\<close>, \<open>Headline B\<close>, and so on, and a markup text with one anchor.
\<close>

definition feed_entry :: "str \<Rightarrow> str \<Rightarrow> element" where
  "feed_entry title link =
    Element (ascii ''item'') None
      [Element (ascii ''title'') (Some title) [], Element (ascii ''link'') (Some link) []]"

definition feed_of :: "element list \<Rightarrow> element" where
  "feed_of items = Element (ascii ''rss'') None [Element (ascii ''channel'') None items]"

definition sample_entry :: "nat \<Rightarrow> element" where
  "sample_entry i =
    feed_entry (ascii ''Headline '' @ [65 + i]) (ascii ''https://news.example.com/'' @ [97 + i])"

definition sample_record :: "nat \<Rightarrow> news_item" where
  "sample_record i =
    google_item (ascii ''Headline '' @ [65 + i]) (ascii ''https://news.example.com/'' @ [97 + i])"

definition sample_markup :: str where
  "sample_markup = ascii ''<a href='' @ [34] @ ascii ''./articles/123'' @ [34]
     @ ascii ''>Storm closes schools - CNA</a>''"


definition long_reference :: str where
  "long_reference = [38, 35] @ replicate 4301 57 @ [59]"

section \<open>Properties of the filters\<close>

lemma str_in_iff: "str_in p s \<longleftrightarrow> (\<exists>a b. s = a @ p @ b)"
proof (induction s)
  case Nil
  then show ?case by auto
next
  case (Cons c cs)
  show ?case
  proof
    assume "str_in p (c # cs)"
    then consider "startswith (c # cs) p" | "str_in p cs" by auto
    then show "\<exists>a b. c # cs = a @ p @ b"
    proof cases
      case 1
      then have "c # cs = [] @ p @ drop (length p) (c # cs)"
        unfolding startswith_def by (metis append_Nil append_take_drop_id)
      then show ?thesis by blast
    next
      case 2
      with Cons.IH obtain a b where "cs = a @ p @ b" by blast
      then have "c # cs = (c # a) @ p @ b" by simp
      then show ?thesis by blast
    qed
  next
    assume "\<exists>a b. c # cs = a @ p @ b"
    then obtain a b where ab: "c # cs = a @ p @ b" by blast
    show "str_in p (c # cs)"
    proof (cases a)
      case Nil
      with ab have "take (length p) (c # cs) = p" by simp
      then show ?thesis by (simp add: startswith_def)
    next
      case (Cons x xs)
      with ab have "cs = xs @ p @ b" by simp
      with Cons.IH show ?thesis by auto
    qed
  qed
qed

lemma str_in_single: "str_in [c] s \<longleftrightarrow> c \<in> set s"
  by (induction s) (auto simp: startswith_def)

text \<open>
  C10. Every link whose lower-cased form contains the character \<open>#\<close> (code point 35)
  is excluded by \<open>should_exclude_url\<close>.
\<close>

theorem hash_link_excluded:
  "35 \<in> set (lower rt url) \<Longrightarrow> should_exclude_url rt url"
proof -
  assume h: "35 \<in> set (lower rt url)"
  have "ascii ''#'' = [35]" by (simp add: ascii_def)
  with h have "str_in (ascii ''#'') (lower rt url)" by (simp add: str_in_single)
  then have "list_ex (\<lambda>pattern. str_in pattern (lower rt url)) exclude_url_patterns"
    by (simp add: exclude_url_patterns_def)
  then show ?thesis by (simp add: should_exclude_url_def)
qed

theorem hash_link_excluded_witness:
  "35 \<in> set (lower ascii_runtime (ascii ''https://example.com/page#section''))
   \<and> startswith (ascii ''https://example.com/page#section'') (ascii ''https://'')
   \<and> should_exclude_url ascii_runtime (ascii ''https://example.com/page#section'')"
proof -
  have h: "35 \<in> set (lower ascii_runtime (ascii ''https://example.com/page#section''))"
    by (simp add: ascii_runtime_def ascii_def ascii_lower_def)
  have p: "startswith (ascii ''https://example.com/page#section'') (ascii ''https://'')"
    by (simp add: startswith_def ascii_def)
  from h p hash_link_excluded [OF h] show ?thesis by simp
qed

text \<open>
  C6, as stated, fails: the scheme test of \<open>should_exclude_url\<close> is
  \<open>url.startswith('http://') or url.startswith('https://')\<close> on the link as it is, not
  on its lower-cased form. A link that begins with \<open>HTTP://\<close> is excluded, although it is
  not empty, holds no denylist entry, and passes a prefix test that ignores case.
\<close>

theorem link_filter_counterexample:
  "\<not> (should_exclude_url ascii_runtime (ascii ''HTTP://example.com/news'') \<longleftrightarrow>
        (ascii ''HTTP://example.com/news'' = []
         \<or> list_ex (\<lambda>pattern. str_in pattern (lower ascii_runtime (ascii ''HTTP://example.com/news'')))
              exclude_url_patterns
         \<or> \<not> (startswith (lower ascii_runtime (ascii ''HTTP://example.com/news'')) (ascii ''http://'')
              \<or> startswith (lower ascii_runtime (ascii ''HTTP://example.com/news'')) (ascii ''https://''))))"
  by (simp add: should_exclude_url_def exclude_url_patterns_def ascii_def ascii_runtime_def
      ascii_lower_def startswith_def)

text \<open>
  C6, amended. \<open>should_exclude_url\<close> returns true exactly when the link is empty, or
  its lower-cased form contains one of the denylist entries, or the link itself does not
  start with \<open>http://\<close> or \<open>https://\<close> (the prefix test is sensitive to case). The link
  \<open>javascript:void(0)\<close> is excluded, and so is a link that begins with \<open>HTTP://\<close>.
\<close>

theorem link_filter_exact:
  "(should_exclude_url rt url \<longleftrightarrow>
      (url = []
       \<or> list_ex (\<lambda>pattern. str_in pattern (lower rt url)) exclude_url_patterns
       \<or> \<not> (startswith url (ascii ''http://'') \<or> startswith url (ascii ''https://''))))
   \<and> should_exclude_url rt (ascii ''javascript:void(0)'')
   \<and> should_exclude_url rt (ascii ''HTTP://example.com/news'')"
  by (simp add: should_exclude_url_def startswith_def ascii_def)

theorem link_filter_exact_witness:
  "\<not> should_exclude_url ascii_runtime (ascii ''https://tw.news.yahoo.com/story'')
   \<and> should_exclude_url ascii_runtime (ascii ''mailto:desk@example.com'')
   \<and> should_exclude_url ascii_runtime (ascii ''javascript:void(0)'')"
  using link_filter_exact [of ascii_runtime "ascii ''https://tw.news.yahoo.com/story''"]
    link_filter_exact [of ascii_runtime "ascii ''mailto:desk@example.com''"]
  by (simp add: exclude_url_patterns_def ascii_def ascii_runtime_def ascii_lower_def
      startswith_def)

section \<open>Properties of the matcher\<close>

lemma rep_fallback:
  "lo = 0 \<Longrightarrow> k s = Some z \<Longrightarrow>
     \<exists>seg segs. [] # z = seg # segs \<and> k (drop (length seg) s) = Some segs
       \<and> take (length seg) s = seg \<and> seg_ok rt (Rep lo hi c) seg"
  by (cases hi) auto

lemma rep_Some:
  "rep rt c k lo hi s = Some r \<Longrightarrow>
     \<exists>seg segs. r = seg # segs \<and> k (drop (length seg) s) = Some segs
       \<and> take (length seg) s = seg \<and> seg_ok rt (Rep lo hi c) seg"
proof (induction s arbitrary: lo hi r)
  case Nil
  then obtain z where "lo = 0" "k [] = Some z" "r = [] # z"
    by (auto split: if_splits)
  with rep_fallback [of lo k "[]" z] show ?case by simp
next
  case (Cons x xs)
  have fallback: ?case if "lo = 0" "map_option (Cons []) (k (x # xs)) = Some r"
  proof -
    from that obtain z where "k (x # xs) = Some z" "r = [] # z" by auto
    with that(1) rep_fallback [of lo k "x # xs" z] show ?thesis by simp
  qed
  show ?case
  proof (cases "cls_ok rt c x \<and> hi \<noteq> Some 0")
    case True
    show ?thesis
    proof (cases "rep rt c k (lo - 1) (map_option (\<lambda>h. h - 1) hi) xs")
      case None
      with True Cons.prems have "lo = 0" "map_option (Cons []) (k (x # xs)) = Some r"
        by (auto split: if_splits)
      then show ?thesis by (rule fallback)
    next
      case (Some r')
      from Cons.IH [OF Some] obtain seg segs where
        r': "r' = seg # segs" and k: "k (drop (length seg) xs) = Some segs"
        and t: "take (length seg) xs = seg"
        and ok: "seg_ok rt (Rep (lo - 1) (map_option (\<lambda>h. h - 1) hi) c) seg" by blast
      from True Some r' Cons.prems have r: "r = (x # seg) # segs" by simp
      from ok True have "seg_ok rt (Rep lo hi c) (x # seg)"
        by (cases hi) auto
      with r k t show ?thesis by simp
    qed
  next
    case False
    with Cons.prems have "lo = 0" "map_option (Cons []) (k (x # xs)) = Some r"
      by (auto split: if_splits)
    then show ?thesis by (rule fallback)
  qed
qed

lemma prefix_ok_take:
  "prefix_ok rt a s \<Longrightarrow> list_all2 (cls_ok rt) a (take (length a) s)"
  by (induction rt a s rule: prefix_ok.induct) auto

lemma first_alt_Some:
  "first_alt rt k s as = Some r \<Longrightarrow>
     \<exists>seg segs. r = seg # segs \<and> k (drop (length seg) s) = Some segs
       \<and> take (length seg) s = seg \<and> seg_ok rt (Alts as) seg"
proof (induction as)
  case Nil
  then show ?case by simp
next
  case (Cons a as)
  show ?case
  proof (cases "prefix_ok rt a s \<and> k (drop (length a) s) \<noteq> None")
    case True
    then obtain segs where segs: "k (drop (length a) s) = Some segs" by auto
    from True have l: "list_all2 (cls_ok rt) a (take (length a) s)"
      by (simp add: prefix_ok_take)
    then have len: "length (take (length a) s) = length a"
      by (metis list_all2_lengthD)
    from True segs Cons.prems have "r = take (length a) s # segs" by simp
    with segs l len show ?thesis by auto
  next
    case False
    with Cons.prems have "first_alt rt k s as = Some r" by (auto split: option.splits)
    from Cons.IH [OF this] show ?thesis by auto
  qed
qed

lemma rx_match_sound:
  "rx_match rt ps s = Some segs \<Longrightarrow>
     list_all2 (seg_ok rt) ps segs \<and> take (length (concat segs)) s = concat segs"
proof (induction ps arbitrary: s segs)
  case Nil
  then show ?case by simp
next
  case (Cons p ps)
  have step: "list_all2 (seg_ok rt) (p # ps) segs \<and> take (length (concat segs)) s = concat segs"
    if "segs = seg # segs'" "rx_match rt ps (drop (length seg) s) = Some segs'"
       "take (length seg) s = seg" "seg_ok rt p seg" for seg segs'
  proof -
    from Cons.IH [OF that(2)] have a: "list_all2 (seg_ok rt) ps segs'"
      and b: "take (length (concat segs')) (drop (length seg) s) = concat segs'" by auto
    have "take (length seg + length (concat segs')) s
          = take (length seg) s @ take (length (concat segs')) (drop (length seg) s)"
      by (simp add: take_add)
    with that a b show ?thesis by simp
  qed
  show ?case
  proof (cases p)
    case (Rep lo hi c)
    with Cons.prems have "rep rt c (rx_match rt ps) lo hi s = Some segs" by simp
    from rep_Some [OF this] Rep step show ?thesis by blast
  next
    case (Alts as)
    with Cons.prems have "first_alt rt (rx_match rt ps) s as = Some segs" by simp
    from first_alt_Some [OF this] Alts step show ?thesis by blast
  next
    case Eos
    with Cons.prems obtain segs' where "segs = [] # segs'" "rx_match rt ps s = Some segs'"
      by (auto split: if_splits)
    with step [of "[]" segs'] Eos show ?thesis by simp
  qed
qed

lemma rx_match_needs_char:
  assumes "rx_match rt ps s = Some segs" and "Rep (Suc n) hi (Lit d) \<in> set ps"
  shows "d \<in> set s"
proof -
  from rx_match_sound [OF assms(1)] have l: "list_all2 (seg_ok rt) ps segs"
    and t: "take (length (concat segs)) s = concat segs" by auto
  from assms(2) obtain i where i: "i < length ps" "ps ! i = Rep (Suc n) hi (Lit d)"
    by (auto simp: in_set_conv_nth)
  with l have ok: "seg_ok rt (Rep (Suc n) hi (Lit d)) (segs ! i)" and il: "i < length segs"
    by (auto dest: list_all2_nthD list_all2_lengthD)
  then obtain x xs where "segs ! i = x # xs" by (cases "segs ! i") auto
  with ok have "d \<in> set (segs ! i)" by auto
  with il have "d \<in> set (concat segs)" by (auto intro: nth_mem)
  with t show ?thesis by (metis in_set_takeD)
qed

lemma re_sub_no_char:
  "d \<notin> set s \<Longrightarrow> Rep (Suc n) hi (Lit d) \<in> set p \<Longrightarrow> re_sub rt p 0 s = s"
proof (induction s)
  case Nil
  then show ?case by simp
next
  case (Cons c cs)
  have "rx_match rt p (c # cs) = None"
  proof (cases "rx_match rt p (c # cs)")
    case (Some segs)
    from rx_match_needs_char [OF Some Cons.prems(2)] Cons.prems(1) show ?thesis by simp
  qed simp
  with Cons show ?case by simp
qed

lemma dropWhile_fixed: "xs = [] \<or> \<not> P (hd xs) \<Longrightarrow> dropWhile P xs = xs"
  by (cases xs) auto

lemma dropWhile_hd: "dropWhile P xs = [] \<or> \<not> P (hd (dropWhile P xs))"
  using hd_dropWhile by blast

lemma strip_strip: "strip rt (strip rt s) = strip rt s"
proof -
  define u where "u = dropWhile (isspace rt) s"
  define w where "w = dropWhile (isspace rt) (rev u)"
  have u: "u = [] \<or> \<not> isspace rt (hd u)" unfolding u_def by (rule dropWhile_hd)
  have w: "w = [] \<or> \<not> isspace rt (hd w)" unfolding w_def by (rule dropWhile_hd)
  have a: "dropWhile (isspace rt) w = w" using w by (rule dropWhile_fixed)
  have "rev w = [] \<or> \<not> isspace rt (hd (rev w))"
  proof (cases "w = []")
    case True
    then show ?thesis by simp
  next
    case False
    have "rev u = takeWhile (isspace rt) (rev u) @ w"
      unfolding w_def by simp
    then have "u = rev w @ rev (takeWhile (isspace rt) (rev u))"
      by (metis rev_append rev_rev_ident)
    moreover from False have nw: "rev w \<noteq> []" by simp
    ultimately have "hd (rev w) = hd u" by (metis hd_append2)
    moreover from False have "u \<noteq> []" unfolding w_def by auto
    ultimately show ?thesis using u by simp
  qed
  then have b: "dropWhile (isspace rt) (rev w) = rev w" by (rule dropWhile_fixed)
  have "strip rt s = rev w" by (simp add: strip_def u_def w_def)
  moreover have "strip rt (rev w) = rev w" using a b by (simp add: strip_def)
  ultimately show ?thesis by simp
qed

lemma set_strip: "set (strip rt s) \<subseteq> set s"
  unfolding strip_def by (metis set_dropWhileD set_rev subsetI)









section \<open>Properties of the normalizer\<close>

lemma error_eq [simp]: "(e = ValueError) = True" "(ValueError = e) = True"
  by (cases e; simp)+

lemma long_charref_ampersand: "long_charref n s \<Longrightarrow> 38 \<in> set s"
  by (induction s) auto

lemma charref_raises_ampersand: "charref_raises rt s \<Longrightarrow> 38 \<in> set s"
  by (auto simp: charref_raises_def long_charref_ampersand split: option.splits)

lemma unescape_raises: "charref_raises rt s \<Longrightarrow> unescape rt s = Inl ValueError"
  by (auto simp: unescape_def dest: charref_raises_ampersand)

lemma unescape_returns: "\<not> charref_raises rt s \<Longrightarrow> \<exists>u. unescape rt s = Inr u"
  by (simp add: unescape_def)

lemma clean_title_raises: "charref_raises rt t \<Longrightarrow> clean_title rt (Some t) = Inl ValueError"
proof -
  assume r: "charref_raises rt t"
  then have "t \<noteq> []" by (auto dest: charref_raises_ampersand)
  with unescape_raises [OF r] show ?thesis by (simp add: clean_title_def)
qed

lemma clean_title_returns:
  "\<not> charref_raises rt t \<Longrightarrow> \<exists>r. clean_title rt (Some t) = Inr (Some r)"
proof -
  assume "\<not> charref_raises rt t"
  from unescape_returns [OF this] obtain u where "unescape rt t = Inr u" ..
  then show ?thesis by (simp add: clean_title_def)
qed

lemma long_reference_digits:
  "takeWhile is_digit (replicate 4301 57 @ [59]) = replicate 4301 57"
proof -
  have "takeWhile is_digit (replicate 4301 57 @ [59])
        = replicate 4301 57 @ takeWhile is_digit [59]"
    by (rule takeWhile_append2) (simp add: is_digit_def)
  then show ?thesis by (simp add: is_digit_def)
qed

lemma long_reference_raises: "charref_raises ascii_runtime long_reference"
  by (simp add: charref_raises_def ascii_runtime_def long_reference_def long_reference_digits)

text \<open>
  C9, as stated, fails: \<open>clean_title\<close> calls \<open>html.unescape\<close> outside any handler, and on
  an interpreter with the default limit of 4300 digits \<open>html.unescape\<close> raises
  \<open>ValueError\<close> on a decimal character reference of 4301 digits. On the text \<open>&#\<close>, 4301
  times \<open>9\<close>, \<open>;\<close> the normalizer raises.
\<close>

theorem normalizer_can_raise:
  "clean_title ascii_runtime (Some ([38, 35] @ replicate 4301 57 @ [59])) = Inl ValueError"
proof -
  have "charref_raises ascii_runtime ([38, 35] @ replicate 4301 57 @ [59])"
    by (simp add: charref_raises_def ascii_runtime_def long_reference_digits)
  then show ?thesis by (rule clean_title_raises)
qed

text \<open>
  C9, amended. \<open>clean_title\<close> returns \<open>None\<close> on \<open>None\<close> and the empty string on the
  empty string. On any other text it raises \<open>ValueError\<close> when the text holds a decimal
  character reference with more digits than the interpreter's limit, and returns a string
  otherwise. It returns in particular on every text without an ampersand, and on every
  text when the interpreter has no limit.
\<close>

theorem normalizer_raises_only_on_long_reference:
  "clean_title rt None = Inr None
   \<and> clean_title rt (Some []) = Inr (Some [])
   \<and> (charref_raises rt t \<longrightarrow> clean_title rt (Some t) = Inl ValueError)
   \<and> (\<not> charref_raises rt t \<longrightarrow> (\<exists>r. clean_title rt (Some t) = Inr (Some r)))
   \<and> (38 \<notin> set t \<longrightarrow> \<not> charref_raises rt t)
   \<and> (max_str_digits rt = None \<longrightarrow> \<not> charref_raises rt t)"
proof -
  have a: "clean_title rt None = Inr None" "clean_title rt (Some []) = Inr (Some [])"
    by (simp_all add: clean_title_def)
  have b: "max_str_digits rt = None \<Longrightarrow> \<not> charref_raises rt t"
    by (simp add: charref_raises_def)
  from a b clean_title_raises [of rt t] clean_title_returns [of rt t]
    charref_raises_ampersand [of rt t]
  show ?thesis by blast
qed

text \<open>
  The example of the specification, which has no ampersand; the long reference with the
  default limit; the long reference on an interpreter without a limit.
\<close>

theorem normalizer_raises_only_on_long_reference_witness:
  "38 \<notin> set ([21488, 32929, 22823, 28466] @ ascii '' - '' @ [33258, 30001, 26178, 22577])
   \<and> \<not> charref_raises ascii_runtime
         ([21488, 32929, 22823, 28466] @ ascii '' - '' @ [33258, 30001, 26178, 22577])
   \<and> (\<exists>r. clean_title ascii_runtime
         (Some ([21488, 32929, 22823, 28466] @ ascii '' - '' @ [33258, 30001, 26178, 22577]))
           = Inr (Some r))
   \<and> charref_raises ascii_runtime long_reference
   \<and> clean_title ascii_runtime (Some long_reference) = Inl ValueError
   \<and> max_str_digits (ascii_runtime \<lparr> max_str_digits := None \<rparr>) = None
   \<and> \<not> charref_raises (ascii_runtime \<lparr> max_str_digits := None \<rparr>) long_reference
   \<and> (\<exists>r. clean_title (ascii_runtime \<lparr> max_str_digits := None \<rparr>) (Some long_reference)
           = Inr (Some r))"
proof -
  let ?t = "[21488, 32929, 22823, 28466] @ ascii '' - '' @ [33258, 30001, 26178, 22577]"
  let ?rt = "ascii_runtime \<lparr> max_str_digits := None \<rparr>"
  have a: "38 \<notin> set ?t" by (simp add: ascii_def)
  have n: "max_str_digits ?rt = None" by simp
  note t1 = normalizer_raises_only_on_long_reference [of ascii_runtime ?t]
  note t2 = normalizer_raises_only_on_long_reference [of ascii_runtime long_reference]
  note t3 = normalizer_raises_only_on_long_reference [of ?rt long_reference]
  from a t1 have b: "\<not> charref_raises ascii_runtime ?t" by blast
  from b t1 have c: "\<exists>r. clean_title ascii_runtime (Some ?t) = Inr (Some r)" by blast
  from long_reference_raises t2
  have d: "clean_title ascii_runtime (Some long_reference) = Inl ValueError" by blast
  from n t3 have e: "\<not> charref_raises ?rt long_reference" by blast
  from e t3 have f: "\<exists>r. clean_title ?rt (Some long_reference) = Inr (Some r)" by blast
  show ?thesis by (intro conjI a b c long_reference_raises d n e f)
qed

lemma clean_title_fixed:
  assumes "strip rt t = t" and "45 \<notin> set t" and "38 \<notin> set t"
  shows "clean_title rt (Some t) = Inr (Some t)"
proof -
  have p1: "re_sub rt [Star Space, One (Lit 124), Star Space, Star (NotOf [124]), Star Space,
       One (Lit 45), Star Space, Star (NotOf [45]), Eos] 0 t = t"
    using assms(2) by (intro re_sub_no_char [where d = 45 and n = 0 and hi = "Some 1"]) simp_all
  have p2: "re_sub rt [Star Space, One (Lit 45), Star Space, Star (NotOf [45]), Eos] 0 t = t"
    using assms(2) by (intro re_sub_no_char [where d = 45 and n = 0 and hi = "Some 1"]) simp_all
  from assms p1 p2 show ?thesis
    by (simp add: clean_title_def unescape_def title_patterns_def)
qed

text \<open>
  C4, as stated, fails: the second pattern removes only the last dash-delimited part, so a
  title with two such parts loses one at each application.
  \<open>Quake - CNA - Yahoo\<close> becomes \<open>Quake - CNA\<close>, which becomes \<open>Quake\<close>.
\<close>

theorem normalizer_not_idempotent:
  "clean_title ascii_runtime (Some (ascii ''Quake - CNA - Yahoo''))
     = Inr (Some (ascii ''Quake - CNA''))
   \<and> clean_title ascii_runtime (Some (ascii ''Quake - CNA'')) = Inr (Some (ascii ''Quake''))
   \<and> clean_title ascii_runtime (Some (ascii ''Quake - CNA''))
       \<noteq> clean_title ascii_runtime (Some (ascii ''Quake - CNA - Yahoo''))"
proof -
  have a: "clean_title ascii_runtime (Some (ascii ''Quake - CNA - Yahoo''))
           = Inr (Some (ascii ''Quake - CNA''))"
    by (simp add: clean_title_def title_patterns_def ascii_def ascii_runtime_def strip_def
        unescape_def py_isspace_def)
  have b: "clean_title ascii_runtime (Some (ascii ''Quake - CNA'')) = Inr (Some (ascii ''Quake''))"
    by (simp add: clean_title_def title_patterns_def ascii_def ascii_runtime_def strip_def
        unescape_def py_isspace_def)
  from a b show ?thesis by (simp add: ascii_def)
qed

text \<open>
  C4, amended. \<open>clean_title\<close> applied twice gives what it gives applied once, for
  every input whose normalized form holds no dash (45) and no ampersand (38);
  \<open>None\<close> and the empty string are among them. (The normalized form of \<open>x\<close> is \<open>y\<close>
  when \<open>clean_title\<close> returns \<open>y\<close> on \<open>x\<close>.)
\<close>

theorem normalizer_idempotent_without_dash:
  assumes "clean_title rt x = Inr y"
    and "case y of None \<Rightarrow> True | Some t \<Rightarrow> 45 \<notin> set t \<and> 38 \<notin> set t"
  shows "clean_title rt y = clean_title rt x"
proof (cases x)
  case None
  with assms(1) show ?thesis by (simp add: clean_title_def)
next
  case (Some t0)
  show ?thesis
  proof (cases "t0 = []")
    case True
    with Some assms(1) show ?thesis by (auto simp: clean_title_def)
  next
    case False
    with Some assms(1) obtain z where y: "y = Some (strip rt z)"
      by (auto simp: clean_title_def split: sum.splits)
    with assms(2) have "45 \<notin> set (strip rt z)" "38 \<notin> set (strip rt z)" by simp_all
    with clean_title_fixed [of rt "strip rt z"] y assms(1) show ?thesis
      by (simp add: strip_strip)
  qed
qed

text \<open>
  The example of the specification: four characters, \<open> - \<close> and the four characters of
  the source's name.
\<close>

theorem normalizer_idempotent_without_dash_witness:
  "clean_title ascii_runtime
      (Some ([21488, 32929, 22823, 28466] @ ascii '' - '' @ [33258, 30001, 26178, 22577]))
     = Inr (Some [21488, 32929, 22823, 28466])
   \<and> 45 \<notin> set [21488, 32929, 22823, 28466 :: nat]
   \<and> 38 \<notin> set [21488, 32929, 22823, 28466 :: nat]
   \<and> clean_title ascii_runtime (Some [21488, 32929, 22823, 28466])
     = clean_title ascii_runtime
        (Some ([21488, 32929, 22823, 28466] @ ascii '' - '' @ [33258, 30001, 26178, 22577]))"
proof -
  have a: "clean_title ascii_runtime
      (Some ([21488, 32929, 22823, 28466] @ ascii '' - '' @ [33258, 30001, 26178, 22577]))
     = Inr (Some [21488, 32929, 22823, 28466])"
    by (simp add: clean_title_def title_patterns_def ascii_def ascii_runtime_def strip_def
        unescape_def py_isspace_def)
  from a normalizer_idempotent_without_dash [OF a]
  show ?thesis by simp
qed

section \<open>Properties of the feed extractor\<close>

lemmas eval_defs = clean_title_def title_patterns_def ascii_def ascii_runtime_def strip_def
  unescape_def py_isspace_def ascii_lower_def should_exclude_text_def exclude_patterns_def
  startswith_def

lemma text_kept: "\<not> should_exclude_text rt (Some t) \<Longrightarrow> 5 \<le> length (strip rt t)"
  by (auto simp: should_exclude_text_def split: if_splits)

lemma url_kept:
  "\<not> should_exclude_url rt u \<Longrightarrow>
     startswith u (ascii ''http://'') \<or> startswith u (ascii ''https://'')"
  by (auto simp: should_exclude_url_def split: if_splits)

lemma rss_loop_step:
  "rss_loop rt (item # items) news_array =
     (if item_raises rt item then Inl ValueError
      else rss_loop rt items
             (news_array @ (case rss_record rt item of None \<Rightarrow> [] | Some r \<Rightarrow> [r])))"
  by (simp add: rss_record_def item_raises_def item_fields_def split: option.splits sum.splits)

lemma rss_loop_eq:
  "rss_loop rt items news_array =
     (if list_ex (item_raises rt) items then Inl ValueError
      else Inr (news_array @ List.map_filter (rss_record rt) items))"
proof (induction items arbitrary: news_array)
  case Nil
  then show ?case by simp
next
  case (Cons item items)
  show ?case
    unfolding rss_loop_step Cons.IH by (simp split: option.splits)
qed

lemma rss_record_ok: "rss_record rt item = Some r \<Longrightarrow> feed_record_ok rt r"
proof -
  assume a: "rss_record rt item = Some r"
  then obtain raw link where f: "item_fields item = Some (raw, link)"
    by (auto simp: rss_record_def split: option.splits)
  with a obtain title where x: "\<not> should_exclude_text rt (Some title)"
    and r: "r = google_item title link"
    by (auto simp: rss_record_def split: if_splits sum.splits)
  from f have "link \<noteq> []"
    by (auto simp: item_fields_def split: option.splits if_splits)
  with r text_kept [OF x] show ?thesis by (simp add: feed_record_ok_def google_item_def)
qed

lemma map_filter_ok:
  "(\<And>x y. f x = Some y \<Longrightarrow> P y) \<Longrightarrow> list_all P (List.map_filter f xs)"
  by (induction xs) (auto split: option.splits)

lemma fetch_first_items:
  "fetch_google_news_rss rt (Response 200 (Some root))
     = (if list_ex (item_raises rt) (take 15 (findall_items root)) then []
        else List.map_filter (rss_record rt) (take 15 (findall_items root)))"
  by (simp add: fetch_google_news_rss_def rss_loop_eq MAX_NEWS_ITEMS_def)

lemma fetch_ok: "list_all (feed_record_ok rt) (fetch_google_news_rss rt resp)"
proof (cases resp)
  case Fetch_failed
  then show ?thesis by (simp add: fetch_google_news_rss_def)
next
  case (Response status parsed)
  show ?thesis
  proof (cases "status = 200 \<and> parsed \<noteq> None")
    case True
    then obtain root where "resp = Response 200 (Some root)" using Response by auto
    then show ?thesis by (simp add: fetch_first_items map_filter_ok rss_record_ok)
  next
    case False
    with Response show ?thesis by (auto simp: fetch_google_news_rss_def)
  qed
qed

lemma well_formed_record:
  "well_formed rt item \<Longrightarrow> rss_record rt item \<noteq> None \<and> \<not> item_raises rt item"
proof -
  assume w: "well_formed rt item"
  then obtain raw link title where f: "item_fields item = Some (raw, link)"
    and c: "clean_title rt (Some raw) = Inr title"
    and t: "\<not> should_exclude_text rt title"
    by (auto simp: well_formed_def split: option.splits sum.splits)
  from t obtain t' where "title = Some t'"
    by (cases title) (auto simp: should_exclude_text_def)
  with f c t show ?thesis by (simp add: rss_record_def item_raises_def)
qed

lemma map_filter_all:
  "list_all (\<lambda>x. f x \<noteq> None) xs \<Longrightarrow> map Some (List.map_filter f xs) = map f xs"
  by (induction xs) (auto split: option.splits)

lemma length_map_filter: "length (List.map_filter f xs) \<le> length xs"
  by (induction xs) (auto split: option.splits)

lemma findall_feed_of:
  "list_all (\<lambda>e. tag e = ascii ''item'' \<and> list_all (\<lambda>c. tag c \<noteq> ascii ''item'' \<and> children c = []) (children e)) items
   \<Longrightarrow> findall_items (feed_of items) = items"
proof -
  assume a: "list_all (\<lambda>e. tag e = ascii ''item'' \<and> list_all (\<lambda>c. tag c \<noteq> ascii ''item'' \<and> children c = []) (children e)) items"
  have leaf: "filter (\<lambda>e. tag e = ascii ''item'') (concat (map iter cs)) = []"
    if "list_all (\<lambda>c. tag c \<noteq> ascii ''item'' \<and> children c = []) cs" for cs
    using that
  proof (induction cs)
    case Nil
    then show ?case by simp
  next
    case (Cons c cs)
    then show ?case by (cases c) auto
  qed
  have "filter (\<lambda>e. tag e = ascii ''item'') (concat (map iter items)) = items"
    using a
  proof (induction items)
    case Nil
    then show ?case by simp
  next
    case (Cons e es)
    then show ?case by (cases e) (auto simp: leaf)
  qed
  then show ?thesis
    by (simp add: findall_items_def feed_of_def ascii_def)
qed

lemma feed_entry_fields:
  "item_fields (feed_entry title link) = (if title \<noteq> [] \<and> link \<noteq> [] then Some (title, link) else None)"
  by (simp add: item_fields_def feed_entry_def find_child_def ascii_def)

lemma feed_entry_shape:
  "tag (feed_entry t l) = ascii ''item'' \<and>
   list_all (\<lambda>c. tag c \<noteq> ascii ''item'' \<and> children c = []) (children (feed_entry t l))"
  by (simp add: feed_entry_def ascii_def)

lemma sample_title_clean:
  "i < 26 \<Longrightarrow> clean_title ascii_runtime (Some (ascii ''Headline '' @ [65 + i]))
     = Inr (Some (ascii ''Headline '' @ [65 + i]))"
  by (rule clean_title_fixed)
     (simp_all add: ascii_def ascii_runtime_def strip_def py_isspace_def)

lemma sample_title_kept:
  "i < 26 \<Longrightarrow> \<not> should_exclude_text ascii_runtime (Some (ascii ''Headline '' @ [65 + i]))"
  by (simp add: ascii_def ascii_runtime_def strip_def py_isspace_def ascii_lower_def
      should_exclude_text_def exclude_patterns_def startswith_def)

lemma rss_record_feed_entry:
  "clean_title rt (Some t) = Inr (Some t') \<Longrightarrow> \<not> should_exclude_text rt (Some t') \<Longrightarrow> t \<noteq> []
   \<Longrightarrow> l \<noteq> [] \<Longrightarrow> rss_record rt (feed_entry t l) = Some (google_item t' l)"
  by (simp add: rss_record_def feed_entry_fields)

lemma sample_entry_record:
  "i < 26 \<Longrightarrow> rss_record ascii_runtime (sample_entry i) = Some (sample_record i)"
  unfolding sample_entry_def sample_record_def
  by (rule rss_record_feed_entry) (simp_all add: sample_title_clean sample_title_kept)

lemma sample_entry_well_formed: "i < 26 \<Longrightarrow> well_formed ascii_runtime (sample_entry i)"
  by (simp add: well_formed_def sample_entry_def feed_entry_fields sample_title_clean
      sample_title_kept)

lemma sample_entry_returns: "i < 26 \<Longrightarrow> \<not> item_raises ascii_runtime (sample_entry i)"
  by (simp add: item_raises_def sample_entry_def feed_entry_fields sample_title_clean)

lemma sample_records:
  "list_all (\<lambda>i. i < 26) xs \<Longrightarrow>
     List.map_filter (rss_record ascii_runtime) (map sample_entry xs) = map sample_record xs"
  by (induction xs) (simp_all add: sample_entry_record)

lemma sample_return:
  "list_all (\<lambda>i. i < 26) xs \<Longrightarrow> \<not> list_ex (item_raises ascii_runtime) (map sample_entry xs)"
  by (induction xs) (simp_all add: sample_entry_returns)

lemma findall_sample:
  "findall_items (feed_of (map sample_entry xs)) = map sample_entry xs"
  "findall_items (feed_of (feed_entry t l # map sample_entry xs))
     = feed_entry t l # map sample_entry xs"
proof -
  have a: "list_all (\<lambda>e. tag e = ascii ''item'' \<and> list_all (\<lambda>c. tag c \<noteq> ascii ''item'' \<and> children c = []) (children e))
     (map sample_entry xs)"
    by (induction xs) (simp_all add: sample_entry_def feed_entry_shape)
  show "findall_items (feed_of (map sample_entry xs)) = map sample_entry xs"
    using a by (rule findall_feed_of)
  show "findall_items (feed_of (feed_entry t l # map sample_entry xs))
     = feed_entry t l # map sample_entry xs"
    using a by (intro findall_feed_of) (simp add: feed_entry_shape)
qed

lemma short_title_rejected:
  "rss_record ascii_runtime (feed_entry (ascii ''abc'') (ascii ''https://news.example.com/0'')) = None"
  "\<not> item_raises ascii_runtime (feed_entry (ascii ''abc'') (ascii ''https://news.example.com/0''))"
  by (simp_all add: rss_record_def item_raises_def feed_entry_fields eval_defs)

lemma long_reference_item_raises:
  "item_raises ascii_runtime (feed_entry long_reference (ascii ''https://news.example.com/0''))"
proof -
  have "long_reference \<noteq> []" by (simp add: long_reference_def)
  then show ?thesis
    by (simp add: item_raises_def feed_entry_fields ascii_def
        clean_title_raises [OF long_reference_raises])
qed

text \<open>
  C3, as stated, fails: the loop runs over \<open>items[:15]\<close>, the first fifteen item nodes,
  and not until fifteen records are accepted. In a feed of sixteen items whose first has a
  title of three characters and whose other fifteen are well formed, fifteen records could
  be accepted; the extractor returns the fourteen of \<open>Headline A\<close> to \<open>Headline N\<close>.
\<close>

theorem feed_cap_counterexample:
  "length (List.map_filter (rss_record ascii_runtime)
      (findall_items (feed_of (feed_entry (ascii ''abc'') (ascii ''https://news.example.com/0'')
                                # map sample_entry [0..<15])))) = 15
   \<and> fetch_google_news_rss ascii_runtime
        (Response 200 (Some (feed_of (feed_entry (ascii ''abc'') (ascii ''https://news.example.com/0'')
                                # map sample_entry [0..<15]))))
       = map sample_record [0..<14]"
proof -
  have a: "list_all (\<lambda>i. i < 26) [0..<15]" "list_all (\<lambda>i. i < 26) [0..<14]"
    by (simp_all add: list_all_iff)
  have t: "take 14 (map sample_entry [0..<15]) = map sample_entry [0..<14]"
    by (simp add: take_map)
  show ?thesis
    by (simp add: fetch_first_items findall_sample t short_title_rejected
        sample_records [OF a(1)] sample_records [OF a(2)] sample_return [OF a(2)]
        del: upt_Suc)
qed

text \<open>
  C3, amended. The feed extractor examines the first 15 item nodes of the document and no
  other. When the normalization of the title of one of them raises (the item having a
  non-empty title and link), it returns no record. Otherwise it returns, in document
  order, the records of those among them that have a non-empty title and link and whose
  normalized title passes the title filter, so at most 15 records. In particular, when the
  document has at least 15 item nodes and the first 15 are well formed (as in a feed of 20
  well-formed items), it returns exactly 15 records, those of the first 15 items in
  document order.
\<close>

theorem feed_examines_first_items:
  "fetch_google_news_rss rt (Response 200 (Some root))
     = (if list_ex (item_raises rt) (take 15 (findall_items root)) then []
        else List.map_filter (rss_record rt) (take 15 (findall_items root)))
   \<and> length (fetch_google_news_rss rt (Response 200 (Some root))) \<le> 15
   \<and> (15 \<le> length (findall_items root)
        \<and> list_all (well_formed rt) (take 15 (findall_items root))
      \<longrightarrow> length (fetch_google_news_rss rt (Response 200 (Some root))) = 15
          \<and> map Some (fetch_google_news_rss rt (Response 200 (Some root)))
              = map (rss_record rt) (take 15 (findall_items root)))"
proof -
  let ?items = "take 15 (findall_items root)"
  let ?out = "fetch_google_news_rss rt (Response 200 (Some root))"
  have eq: "?out = (if list_ex (item_raises rt) ?items then []
                    else List.map_filter (rss_record rt) ?items)"
    by (rule fetch_first_items)
  have "length (List.map_filter (rss_record rt) ?items) \<le> length ?items"
    by (rule length_map_filter)
  then have "length (List.map_filter (rss_record rt) ?items) \<le> 15" by simp
  with eq have le: "length ?out \<le> 15" by simp
  have all: "length ?out = 15 \<and> map Some ?out = map (rss_record rt) ?items"
    if "15 \<le> length (findall_items root)" "list_all (well_formed rt) ?items"
  proof -
    from that(2) have r: "list_all (\<lambda>x. rss_record rt x \<noteq> None) ?items"
      and n: "\<not> list_ex (item_raises rt) ?items"
      by (auto simp: list_all_iff list_ex_iff dest: well_formed_record)
    from eq n have o: "?out = List.map_filter (rss_record rt) ?items" by simp
    from r have m: "map Some (List.map_filter (rss_record rt) ?items) = map (rss_record rt) ?items"
      by (rule map_filter_all)
    have "length (List.map_filter (rss_record rt) ?items)
        = length (map Some (List.map_filter (rss_record rt) ?items))" by simp
    also have "\<dots> = length (map (rss_record rt) ?items)" by (simp only: m)
    also have "\<dots> = 15" using that(1) by simp
    finally show ?thesis using m o by simp
  qed
  from eq le all show ?thesis by blast
qed

text \<open>
  A feed of twenty well-formed items: the records are those of the first fifteen. A feed
  of two items, \<open>Headline A\<close> and an item whose title is the long reference: no record is
  returned, although the first item is well formed.
\<close>

theorem feed_examines_first_items_witness:
  "15 \<le> length (findall_items (feed_of (map sample_entry [0..<20])))
   \<and> list_all (well_formed ascii_runtime)
        (take 15 (findall_items (feed_of (map sample_entry [0..<20]))))
   \<and> length (fetch_google_news_rss ascii_runtime
        (Response 200 (Some (feed_of (map sample_entry [0..<20]))))) = 15
   \<and> fetch_google_news_rss ascii_runtime
        (Response 200 (Some (feed_of (map sample_entry [0..<20]))))
       = map sample_record [0..<15]
   \<and> well_formed ascii_runtime (sample_entry 0)
   \<and> fetch_google_news_rss ascii_runtime
        (Response 200 (Some (feed_of
           [sample_entry 0, feed_entry long_reference (ascii ''https://news.example.com/0'')])))
       = []"
proof -
  let ?doc = "feed_of (map sample_entry [0..<20])"
  let ?bad = "feed_of
      [sample_entry 0, feed_entry long_reference (ascii ''https://news.example.com/0'')]"
  have items: "take 15 (findall_items ?doc) = map sample_entry [0..<15]"
    by (simp add: findall_sample take_map)
  have n: "15 \<le> length (findall_items ?doc)" by (simp add: findall_sample)
  have w: "list_all (well_formed ascii_runtime) (take 15 (findall_items ?doc))"
    unfolding items by (simp add: list_all_iff sample_entry_well_formed)
  from feed_examines_first_items [of ascii_runtime ?doc] n w
  have l: "length (fetch_google_news_rss ascii_runtime (Response 200 (Some ?doc))) = 15"
    and m: "map Some (fetch_google_news_rss ascii_runtime (Response 200 (Some ?doc)))
            = map (rss_record ascii_runtime) (take 15 (findall_items ?doc))" by blast+
  have "map (rss_record ascii_runtime) (map sample_entry [0..<15])
        = map Some (map sample_record [0..<15])"
    by (simp add: sample_entry_record)
  with m items have "map Some (fetch_google_news_rss ascii_runtime (Response 200 (Some ?doc)))
        = map Some (map sample_record [0..<15])" by simp
  then have r: "fetch_google_news_rss ascii_runtime (Response 200 (Some ?doc))
        = map sample_record [0..<15]"
    by (metis inj_Some inj_map_eq_map)
  have w0: "well_formed ascii_runtime (sample_entry 0)"
    by (rule sample_entry_well_formed) simp
  have "findall_items ?bad
        = [sample_entry 0, feed_entry long_reference (ascii ''https://news.example.com/0'')]"
    by (rule findall_feed_of) (simp add: sample_entry_def feed_entry_shape)
  then have "list_ex (item_raises ascii_runtime) (take 15 (findall_items ?bad))"
    by (simp add: long_reference_item_raises)
  with feed_examines_first_items [of ascii_runtime ?bad]
  have b: "fetch_google_news_rss ascii_runtime (Response 200 (Some ?bad)) = []" by simp
  show ?thesis by (intro conjI n w l r w0 b)
qed

section \<open>Properties of the markup extractor\<close>

lemma strategy_a_collect:
  "strategy_a rt matches news_array = collect (\<lambda>(url, raw). accept rt url raw) matches news_array"
proof (induction matches arbitrary: news_array)
  case Nil
  then show ?case by simp
next
  case (Cons m ms)
  obtain url raw where m: "m = (url, raw)" by (cases m)
  show ?case unfolding m
    by (simp add: Cons.IH accept_def split: option.splits sum.splits)
qed

lemma strategy_b_collect:
  "strategy_b rt matches news_array
     = collect (\<lambda>(cls, url, raw). accept rt url raw) matches news_array"
proof (induction matches arbitrary: news_array)
  case Nil
  then show ?case by simp
next
  case (Cons m ms)
  obtain cls url raw where m: "m = (cls, url, raw)" by (cases m)
  show ?case unfolding m
    by (simp add: Cons.IH accept_def split: option.splits sum.splits)
qed

lemma strategy_c_collect:
  "strategy_c rt matches news_array
     = collect (\<lambda>(url, raw). accept rt (rebase_link url) (truncate_title raw)) matches news_array"
proof (induction matches arbitrary: news_array)
  case Nil
  then show ?case by simp
next
  case (Cons m ms)
  obtain url raw where m: "m = (url, raw)" by (cases m)
  show ?case unfolding m
    by (simp add: Cons.IH accept_def split: option.splits sum.splits)
qed

lemma collect_step:
  "collect f (m # ms) news_array =
     (if length news_array \<ge> MAX_NEWS_ITEMS then (news_array, None)
      else (case f m of
              Inl e \<Rightarrow> (news_array, Some e)
            | Inr x \<Rightarrow> collect f ms (news_array @ (case x of None \<Rightarrow> [] | Some r \<Rightarrow> [r]))))"
  by (simp split: sum.splits option.splits)

lemma collect_ok:
  assumes "\<And>m r. f m = Inr (Some r) \<Longrightarrow> P r"
  shows "list_all P news_array \<Longrightarrow> list_all P (fst (collect f ms news_array))"
proof (induction ms arbitrary: news_array)
  case Nil
  then show ?case by simp
next
  case (Cons m ms)
  show ?case
  proof (cases "f m")
    case (Inl e)
    with Cons.prems show ?thesis by simp
  next
    case (Inr x)
    have "list_all P (news_array @ (case x of None \<Rightarrow> [] | Some r \<Rightarrow> [r]))"
      using Cons.prems assms [of m] Inr by (cases x) simp_all
    from Cons.IH [OF this] Inr Cons.prems show ?thesis
      unfolding collect_step by simp
  qed
qed



lemma accept_Some:
  "accept rt url raw = Inr (Some r) \<Longrightarrow>
     clean_title rt (Some raw) = Inr (Some (n_text r)) \<and> n_url r = url
     \<and> \<not> should_exclude_text rt (Some (n_text r)) \<and> \<not> should_exclude_url rt url"
  by (auto simp: accept_def yahoo_item_def split: if_splits option.splits sum.splits)

lemma accept_ok: "accept rt url raw = Inr (Some r) \<Longrightarrow> record_ok rt r"
proof -
  assume "accept rt url raw = Inr (Some r)"
  from accept_Some [OF this] text_kept [of rt "n_text r"] url_kept [of rt url]
  show ?thesis by (simp add: record_ok_def)
qed

lemma strategy_a_ok:
  "list_all (record_ok rt) news_array \<Longrightarrow>
     list_all (record_ok rt) (fst (strategy_a rt matches news_array))"
  unfolding strategy_a_collect by (rule collect_ok) (auto dest: accept_ok)

lemma strategy_b_ok:
  "list_all (record_ok rt) news_array \<Longrightarrow>
     list_all (record_ok rt) (fst (strategy_b rt matches news_array))"
  unfolding strategy_b_collect by (rule collect_ok) (auto dest: accept_ok)

lemma strategy_c_ok:
  "list_all (record_ok rt) news_array \<Longrightarrow>
     list_all (record_ok rt) (fst (strategy_c rt matches news_array))"
  unfolding strategy_c_collect by (rule collect_ok) (auto dest: accept_ok)

lemma run_strategies_trace:
  "snd (run_strategies rt m1 m2 m3 []) =
     Strategy_A # (if strategy_a rt m1 [] = ([], None)
                   then Strategy_B # (if strategy_b rt m2 [] = ([], None) then [Strategy_C]
                                      else [])
                   else [])"
  by (auto simp: run_strategies_def split: prod.splits option.splits)

lemma run_strategies_array:
  "fst (run_strategies rt m1 m2 m3 []) =
     (if strategy_a rt m1 [] = ([], None)
      then (if strategy_b rt m2 [] = ([], None) then fst (strategy_c rt m3 [])
            else fst (strategy_b rt m2 []))
      else fst (strategy_a rt m1 []))"
  by (auto simp: run_strategies_def split: prod.splits option.splits)

lemma run_strategies_ok:
  "list_all (record_ok rt) (fst (run_strategies rt m1 m2 m3 []))"
  unfolding run_strategies_array
  by (simp add: strategy_a_ok strategy_b_ok strategy_c_ok)





lemmas pattern_defs = pattern1_matches_def pattern2_matches_def pattern3_matches_def
  pattern1_def pattern2_def pattern3_def icase_def icls_def

lemma sample_markup_matches:
  "pattern1_matches ascii_runtime sample_markup = []"
  "pattern2_matches ascii_runtime sample_markup = []"
  "pattern3_matches ascii_runtime sample_markup
     = [(ascii ''./articles/123'', ascii ''Storm closes schools - CNA'')]"
  by (simp_all add: sample_markup_def pattern_defs ascii_def ascii_runtime_def py_isspace_def
      ascii_lower_def)


lemma sample_accept:
  "accept ascii_runtime (rebase_link (ascii ''./articles/123''))
      (truncate_title (ascii ''Storm closes schools - CNA''))
    = Inr (Some (yahoo_item (ascii ''Storm closes schools'')
              (ascii ''https://tw.news.yahoo.com/articles/123'')))"
  by (simp add: accept_def truncate_title_def rebase_link_def YAHOO_NEWS_URL_def
      should_exclude_url_def exclude_url_patterns_def eval_defs)

lemma sample_strategy_c:
  "strategy_c ascii_runtime (pattern3_matches ascii_runtime sample_markup) []
    = ([yahoo_item (ascii ''Storm closes schools'') (ascii ''https://tw.news.yahoo.com/articles/123'')],
       None)"
  by (simp add: strategy_c_collect sample_markup_matches sample_accept MAX_NEWS_ITEMS_def)




lemma sample_strategy_a:
  "strategy_a ascii_runtime (pattern1_matches ascii_runtime sample_markup) [] = ([], None)"
  by (simp add: sample_markup_matches)

lemma sample_strategy_b:
  "strategy_b ascii_runtime (pattern2_matches ascii_runtime sample_markup) [] = ([], None)"
  by (simp add: sample_markup_matches)



lemma sample_parse:
  "parse_yahoo_html ascii_runtime sample_markup []
     = ([yahoo_item (ascii ''Storm closes schools'')
           (ascii ''https://tw.news.yahoo.com/articles/123'')],
        [Strategy_A, Strategy_B, Strategy_C])"
  by (rule prod_eqI)
     (simp_all add: parse_yahoo_html_def run_strategies_trace run_strategies_array
        sample_strategy_a sample_strategy_b sample_strategy_c)

text \<open>
  A text that makes \<open>clean_title\<close> raise in the second loop, as the text of an anchor of
  the second pattern: the handler ends the function with the empty array, and the third
  strategy is not attempted, whatever its matches.
\<close>

lemma raise_ends_cascade:
  "run_strategies ascii_runtime []
     [(ascii ''gPFEn'', ascii ''https://tw.news.yahoo.com/articles/123'', long_reference)] m3 []
     = ([], [Strategy_A, Strategy_B])"
  by (simp add: run_strategies_def MAX_NEWS_ITEMS_def clean_title_raises [OF long_reference_raises])





section \<open>Accepted records\<close>

lemma sample_feed_fetch:
  "fetch_google_news_rss ascii_runtime
      (Response 200 (Some (feed_of [feed_entry (ascii ''Headline A'') (ascii ''ftp://example.com/a'')])))
    = [google_item (ascii ''Headline A'') (ascii ''ftp://example.com/a'')]"
proof -
  have t: "ascii ''Headline A'' = ascii ''Headline '' @ [65 + 0]" by (simp add: ascii_def)
  have c: "clean_title ascii_runtime (Some (ascii ''Headline '' @ [65 + 0]))
        = Inr (Some (ascii ''Headline '' @ [65 + 0]))" by (rule sample_title_clean) simp
  have k: "\<not> should_exclude_text ascii_runtime (Some (ascii ''Headline '' @ [65 + 0]))"
    by (rule sample_title_kept) simp
  have f: "findall_items (feed_of [feed_entry (ascii ''Headline A'') (ascii ''ftp://example.com/a'')])
        = [feed_entry (ascii ''Headline A'') (ascii ''ftp://example.com/a'')]"
    by (rule findall_feed_of) (simp add: feed_entry_shape)
  have r: "rss_record ascii_runtime (feed_entry (ascii ''Headline A'') (ascii ''ftp://example.com/a''))
        = Some (google_item (ascii ''Headline A'') (ascii ''ftp://example.com/a''))"
    unfolding t by (rule rss_record_feed_entry [OF c k]) (simp_all add: ascii_def)
  have n: "\<not> item_raises ascii_runtime
             (feed_entry (ascii ''Headline A'') (ascii ''ftp://example.com/a''))"
    unfolding t using c by (simp add: item_raises_def feed_entry_fields)
  show ?thesis by (simp add: fetch_first_items f r n)
qed

text \<open>
  C2, as stated, fails for the feed extractor: it tests the link of an item for being
  non-empty only (\<open>if title and link\<close>) and never calls \<open>should_exclude_url\<close>. A feed
  item whose link is \<open>ftp://example.com/a\<close> is accepted.
\<close>

theorem feed_link_counterexample:
  "\<not> list_all (record_ok ascii_runtime)
       (fetch_google_news_rss ascii_runtime
          (Response 200 (Some (feed_of [feed_entry (ascii ''Headline A'') (ascii ''ftp://example.com/a'')]))))"
  unfolding sample_feed_fetch
  by (simp add: record_ok_def google_item_def startswith_def ascii_def)

text \<open>
  C2, amended. Every record accepted by either extractor has a title of trimmed length at
  least 5. Every record accepted by a markup strategy has a link that starts with
  \<open>http://\<close> or \<open>https://\<close>; a record accepted by the feed extractor has a non-empty
  link. (This holds as well of the records that a loop has appended when it is left by
  an exception.)
\<close>

theorem accepted_records_ok:
  "list_all (feed_record_ok rt) (fetch_google_news_rss rt feed_resp)
   \<and> list_all (record_ok rt) (fst (strategy_a rt m1 []))
   \<and> list_all (record_ok rt) (fst (strategy_b rt m2 []))
   \<and> list_all (record_ok rt) (fst (strategy_c rt m3 []))
   \<and> list_all (record_ok rt) (fst (parse_yahoo_html rt html_content []))
   \<and> list_all (record_ok rt) (fetch_yahoo_news_trending rt markup_resp)"
proof -
  have "list_all (feed_record_ok rt) (fetch_google_news_rss rt feed_resp)"
    by (rule fetch_ok)
  moreover have "list_all (record_ok rt) (fst (parse_yahoo_html rt html []))" for html
    by (simp add: parse_yahoo_html_def run_strategies_ok)
  moreover from this have "list_all (record_ok rt) (fetch_yahoo_news_trending rt markup_resp)"
    by (simp add: fetch_yahoo_news_trending_def split: response.splits)
  ultimately show ?thesis
    by (simp add: strategy_a_ok strategy_b_ok strategy_c_ok)
qed

text \<open>One record of each extractor.\<close>

theorem accepted_records_ok_witness:
  "fetch_google_news_rss ascii_runtime
      (Response 200 (Some (feed_of [feed_entry (ascii ''Headline A'') (ascii ''ftp://example.com/a'')])))
     = [google_item (ascii ''Headline A'') (ascii ''ftp://example.com/a'')]
   \<and> feed_record_ok ascii_runtime (google_item (ascii ''Headline A'') (ascii ''ftp://example.com/a''))
   \<and> fetch_yahoo_news_trending ascii_runtime (Response 200 sample_markup)
     = [yahoo_item (ascii ''Storm closes schools'') (ascii ''https://tw.news.yahoo.com/articles/123'')]
   \<and> record_ok ascii_runtime
        (yahoo_item (ascii ''Storm closes schools'') (ascii ''https://tw.news.yahoo.com/articles/123''))"
proof -
  have y: "fetch_yahoo_news_trending ascii_runtime (Response 200 sample_markup)
     = [yahoo_item (ascii ''Storm closes schools'') (ascii ''https://tw.news.yahoo.com/articles/123'')]"
    by (simp add: fetch_yahoo_news_trending_def sample_parse)
  note t = accepted_records_ok [of ascii_runtime
      "Response 200 (Some (feed_of [feed_entry (ascii ''Headline A'') (ascii ''ftp://example.com/a'')]))"
      "[]" "[]" "[]" sample_markup "Response 200 sample_markup"]
  from t have "list_all (feed_record_ok ascii_runtime)
      [google_item (ascii ''Headline A'') (ascii ''ftp://example.com/a'')]"
    unfolding sample_feed_fetch by (rule conjunct1)
  then have a: "feed_record_ok ascii_runtime
      (google_item (ascii ''Headline A'') (ascii ''ftp://example.com/a''))" by simp
  from t have "list_all (record_ok ascii_runtime)
      (fetch_yahoo_news_trending ascii_runtime (Response 200 sample_markup))" by blast
  then have b: "record_ok ascii_runtime
        (yahoo_item (ascii ''Storm closes schools'') (ascii ''https://tw.news.yahoo.com/articles/123''))"
    unfolding y by simp
  show ?thesis by (intro conjI sample_feed_fetch a y b)
qed

section \<open>Properties of the aggregator\<close>

lemma matches_Nil:
  "pattern1_matches rt [] = []" "pattern2_matches rt [] = []" "pattern3_matches rt [] = []"
  by (simp_all add: pattern1_matches_def pattern2_matches_def pattern3_matches_def
      pattern1_def pattern2_def pattern3_def icase_def icls_def)

lemma parse_empty: "parse_yahoo_html rt [] [] = ([], [Strategy_A, Strategy_B, Strategy_C])"
  by (simp add: parse_yahoo_html_def run_strategies_def matches_Nil)

text \<open>
  C5. When both extractors return no record, \<open>get_hot_words_json\<close> returns the very
  text that \<open>create_fallback_json\<close> returns.
\<close>

theorem both_empty_gives_fallback:
  "fetch_yahoo_news_trending rt yahoo_resp = [] \<Longrightarrow> fetch_google_news_rss rt google_resp = []
   \<Longrightarrow> get_hot_words_json rt yahoo_resp google_resp cost = create_fallback_json"
  by (simp add: get_hot_words_json_def build_result_def)

text \<open>The example of the specification: an empty markup text and a feed text that does not parse.\<close>

theorem both_empty_gives_fallback_witness:
  "fetch_yahoo_news_trending ascii_runtime (Response 200 []) = []
   \<and> fetch_google_news_rss ascii_runtime (Response 200 None) = []
   \<and> get_hot_words_json ascii_runtime (Response 200 []) (Response 200 None) 10
       = create_fallback_json"
proof -
  have y: "fetch_yahoo_news_trending ascii_runtime (Response 200 []) = []"
    by (simp add: fetch_yahoo_news_trending_def parse_empty)
  have g: "fetch_google_news_rss ascii_runtime (Response 200 None) = []"
    by (simp add: fetch_google_news_rss_def)
  from y g both_empty_gives_fallback [OF y g, of 10] show ?thesis by simp
qed

lemma get_hot_words_json_document:
  "get_hot_words_json rt yahoo_resp google_resp cost =
     json_dumps (document_json (result_document rt yahoo_resp google_resp cost))"
  by (simp add: get_hot_words_json_def result_document_def create_fallback_json_def Let_def)

text \<open>
  C8. The sections that \<open>get_hot_words_json\<close> builds are those of the sources with at
  least one record, Yahoo first: a source with no record is skipped. The text it returns
  serialises \<open>result_document\<close>, and every section of that document, on the fallback path
  as well, holds at least one record.
\<close>

theorem no_empty_section:
  "map s_data (build_result yahoo_news google_news)
     = filter (\<lambda>records. records \<noteq> []) [yahoo_news, google_news]
   \<and> get_hot_words_json rt yahoo_resp google_resp cost
       = json_dumps (document_json (result_document rt yahoo_resp google_resp cost))
   \<and> list_all (\<lambda>sec. s_data sec \<noteq> [])
        (d_result (result_document rt yahoo_resp google_resp cost))"
proof -
  have a: "map s_data (build_result yahoo_news google_news)
     = filter (\<lambda>records. records \<noteq> []) [yahoo_news, google_news]"
    by (simp add: build_result_def)
  have b: "list_all (\<lambda>sec. s_data sec \<noteq> []) (build_result y g)" for y g
    by (simp add: build_result_def)
  have c: "list_all (\<lambda>sec. s_data sec \<noteq> []) (d_result fallback_data)"
    by (simp add: fallback_data_def)
  have d: "list_all (\<lambda>sec. s_data sec \<noteq> [])
        (d_result (result_document rt yahoo_resp google_resp cost))"
    using b c by (simp add: result_document_def Let_def response_data_def)
  from a d get_hot_words_json_document show ?thesis by simp
qed

end
